theory Spec2Isabelle
  imports Main
begin

section \<open>Library functions used by main.go\<close>

text \<open>
  Go strings are byte sequences; they are modelled as \<open>string\<close> (a list of 8-bit
  characters), so a non-ASCII rune is the sequence of its UTF-8 bytes.
\<close>

subsection \<open>strings.TrimSpace\<close>

text \<open>
  The runes for which \<open>unicode.IsSpace\<close> holds, as UTF-8 byte sequences:
  tab, line feed, vertical tab, form feed, carriage return, space, U+0085, U+00A0,
  U+1680, U+2000 to U+200A, U+2028, U+2029, U+202F, U+205F and U+3000.
\<close>

definition spaceRunes :: "string list" where
  "spaceRunes =
     [[CHR 0x09], [CHR 0x0A], [CHR 0x0B], [CHR 0x0C], [CHR 0x0D], [CHR 0x20],
      [CHR 0xC2, CHR 0x85], [CHR 0xC2, CHR 0xA0],
      [CHR 0xE1, CHR 0x9A, CHR 0x80],
      [CHR 0xE2, CHR 0x80, CHR 0x80], [CHR 0xE2, CHR 0x80, CHR 0x81],
      [CHR 0xE2, CHR 0x80, CHR 0x82], [CHR 0xE2, CHR 0x80, CHR 0x83],
      [CHR 0xE2, CHR 0x80, CHR 0x84], [CHR 0xE2, CHR 0x80, CHR 0x85],
      [CHR 0xE2, CHR 0x80, CHR 0x86], [CHR 0xE2, CHR 0x80, CHR 0x87],
      [CHR 0xE2, CHR 0x80, CHR 0x88], [CHR 0xE2, CHR 0x80, CHR 0x89],
      [CHR 0xE2, CHR 0x80, CHR 0x8A],
      [CHR 0xE2, CHR 0x80, CHR 0xA8], [CHR 0xE2, CHR 0x80, CHR 0xA9],
      [CHR 0xE2, CHR 0x80, CHR 0xAF],
      [CHR 0xE2, CHR 0x81, CHR 0x9F],
      [CHR 0xE3, CHR 0x80, CHR 0x80]]"

text \<open>
  \<open>stripRunes rs s\<close> removes from the front of \<open>s\<close> every leading occurrence of one of
  the byte sequences \<open>rs\<close>, until none of them is a prefix of what is left.
\<close>

function stripRunes :: "string list \<Rightarrow> string \<Rightarrow> string" where
  "stripRunes rs s =
     (case find (\<lambda>r. r \<noteq> [] \<and> take (length r) s = r) rs of
        None \<Rightarrow> s
      | Some r \<Rightarrow> stripRunes rs (drop (length r) s))"
  by pat_completeness auto
termination
proof (relation "measure (\<lambda>(rs, s). length s)")
  show "wf (measure (\<lambda>(rs, s). length s))" by simp
next
  fix rs :: "string list" and s r :: string
  assume "find (\<lambda>r. r \<noteq> [] \<and> take (length r) s = r) rs = Some r"
  then have "r \<noteq> []" and "take (length r) s = r"
    by (auto simp: find_Some_iff)
  then have "s \<noteq> []" by auto
  with \<open>r \<noteq> []\<close> show "((rs, drop (length r) s), (rs, s)) \<in> measure (\<lambda>(rs, s). length s)"
    by simp
qed

text \<open>
  \<open>strings.TrimSpace\<close>: all leading and all trailing white space removed, white space
  as \<open>unicode.IsSpace\<close> has it. A trailing rune is found by its reversed bytes at the
  front of the reversed string.
\<close>

definition TrimSpace :: "string \<Rightarrow> string" where
  "TrimSpace s = rev (stripRunes (map rev spaceRunes) (rev (stripRunes spaceRunes s)))"

subsection \<open>strings.Split with the separator "\textbackslash n"\<close>

text \<open>
  \<open>splitLines cur s\<close> cuts \<open>s\<close> at every line feed; \<open>cur\<close> is the piece being read,
  reversed. The empty string gives one empty piece, as \<open>strings.Split\<close> does.
\<close>

fun splitLines :: "string \<Rightarrow> string \<Rightarrow> string list" where
  "splitLines cur [] = [rev cur]"
| "splitLines cur (c # cs) =
     (if c = CHR 0x0A then rev cur # splitLines [] cs else splitLines (c # cur) cs)"

definition Split :: "string \<Rightarrow> string list" where
  "Split s = splitLines [] s"

subsection \<open>strconv.Atoi\<close>

definition isDigit :: "char \<Rightarrow> bool" where
  "isDigit c \<longleftrightarrow> 48 \<le> (of_char c :: nat) \<and> (of_char c :: nat) \<le> 57"

definition digitsValue :: "string \<Rightarrow> int" where
  "digitsValue ds = foldl (\<lambda>n ch. n * 10 + (int (of_char ch) - 48)) 0 ds"

text \<open>
  \<open>strconv.Atoi\<close> on a 64-bit platform (every target of the Makefile is one): an optional
  sign, then one or more decimal digits and nothing else, the value within the range of
  \<open>int\<close>. \<open>None\<close> stands for a non-nil error (syntax or range).
\<close>

definition Atoi :: "string \<Rightarrow> int option" where
  "Atoi s =
     (let neg = (s \<noteq> [] \<and> hd s = CHR ''-'');
          ds = (if s \<noteq> [] \<and> (hd s = CHR ''-'' \<or> hd s = CHR ''+'') then tl s else s)
      in if ds = [] \<or> \<not> list_all isDigit ds then None
         else let n = (if neg then - digitsValue ds else digitsValue ds)
              in if n < - (2 ^ 63) \<or> 2 ^ 63 - 1 < n then None else Some n)"

subsection \<open>encoding/json: syntax\<close>

definition byte :: "char \<Rightarrow> nat" where
  "byte c = of_char c"

datatype json =
    JNull
  | JBool bool
  | JNumber string
  | JString string
  | JArray "json list"
  | JObject "(string \<times> json) list"

definition isWS :: "char \<Rightarrow> bool" where
  "isWS c \<longleftrightarrow> c = CHR 0x20 \<or> c = CHR 0x09 \<or> c = CHR 0x0D \<or> c = CHR 0x0A"

definition skipWS :: "string \<Rightarrow> string" where
  "skipWS s = dropWhile isWS s"

definition hexVal :: "char \<Rightarrow> nat option" where
  "hexVal c =
     (let b = byte c
      in if 48 \<le> b \<and> b \<le> 57 then Some (b - 48)
         else if 97 \<le> b \<and> b \<le> 102 then Some (b - 87)
         else if 65 \<le> b \<and> b \<le> 70 then Some (b - 55)
         else None)"

definition hex4 :: "string \<Rightarrow> nat option" where
  "hex4 s =
     (case s of
        a # b # c # d # _ \<Rightarrow>
          (case (hexVal a, hexVal b, hexVal c, hexVal d) of
             (Some x, Some y, Some z, Some w) \<Rightarrow> Some (((x * 16 + y) * 16 + z) * 16 + w)
           | _ \<Rightarrow> None)
      | _ \<Rightarrow> None)"

definition getu4 :: "string \<Rightarrow> nat option" where
  "getu4 s =
     (case s of
        b # u # r \<Rightarrow> if b = CHR 0x5C \<and> u = CHR ''u'' then hex4 r else None
      | _ \<Rightarrow> None)"

definition replacementChar :: string where
  "replacementChar = [CHR 0xEF, CHR 0xBF, CHR 0xBD]"

definition utf8Encode :: "nat \<Rightarrow> string" where
  "utf8Encode r =
     (if r < 0x80 then [char_of r]
      else if r < 0x800 then [char_of (0xC0 + r div 64), char_of (0x80 + r mod 64)]
      else if (0xD800 \<le> r \<and> r < 0xE000) \<or> 0x10FFFF < r then replacementChar
      else if r < 0x10000 then
        [char_of (0xE0 + r div 4096), char_of (0x80 + r div 64 mod 64), char_of (0x80 + r mod 64)]
      else
        [char_of (0xF0 + r div 262144), char_of (0x80 + r div 4096 mod 64),
         char_of (0x80 + r div 64 mod 64), char_of (0x80 + r mod 64)])"

definition isCont :: "char \<Rightarrow> bool" where
  "isCont c \<longleftrightarrow> 0x80 \<le> byte c \<and> byte c \<le> 0xBF"

definition runeLen :: "string \<Rightarrow> nat" where
  "runeLen s =
     (case s of
        [] \<Rightarrow> 0
      | c # cs \<Rightarrow>
          let b = byte c;
              lo = (if b = 0xE0 then 0xA0 else if b = 0xF0 then 0x90 else 0x80);
              hi = (if b = 0xED then 0x9F else if b = 0xF4 then 0x8F else 0xBF)
          in if b < 0x80 then 1
             else if 0xC2 \<le> b \<and> b \<le> 0xDF then
               (case cs of c1 # _ \<Rightarrow> if isCont c1 then 2 else 0 | _ \<Rightarrow> 0)
             else if 0xE0 \<le> b \<and> b \<le> 0xEF then
               (case cs of
                  c1 # c2 # _ \<Rightarrow> if lo \<le> byte c1 \<and> byte c1 \<le> hi \<and> isCont c2 then 3 else 0
                | _ \<Rightarrow> 0)
             else if 0xF0 \<le> b \<and> b \<le> 0xF4 then
               (case cs of
                  c1 # c2 # c3 # _ \<Rightarrow>
                    if lo \<le> byte c1 \<and> byte c1 \<le> hi \<and> isCont c2 \<and> isCont c3 then 4 else 0
                | _ \<Rightarrow> 0)
             else 0)"

definition simpleEscape :: "char \<Rightarrow> char option" where
  "simpleEscape e =
     (if e = CHR 0x22 \<or> e = CHR 0x5C \<or> e = CHR ''/'' then Some e
      else if e = CHR ''b'' then Some (CHR 0x08)
      else if e = CHR ''f'' then Some (CHR 0x0C)
      else if e = CHR ''n'' then Some (CHR 0x0A)
      else if e = CHR ''r'' then Some (CHR 0x0D)
      else if e = CHR ''t'' then Some (CHR 0x09)
      else None)"

fun unquoteBody :: "string \<Rightarrow> string \<Rightarrow> (string \<times> string) option" where
  "unquoteBody acc [] = None"
| "unquoteBody acc (c # cs) =
     (if c = CHR 0x22 then Some (rev acc, cs)
      else if c = CHR 0x5C then
        (case cs of
           [] \<Rightarrow> None
         | e # r \<Rightarrow>
             (case simpleEscape e of
                Some x \<Rightarrow> unquoteBody (x # acc) r
              | None \<Rightarrow>
                  if e \<noteq> CHR ''u'' then None
                  else
                    (case hex4 r of
                       None \<Rightarrow> None
                     | Some rr \<Rightarrow>
                         if 0xD800 \<le> rr \<and> rr < 0xE000 then
                           (case getu4 (drop 4 r) of
                              None \<Rightarrow> unquoteBody (rev replacementChar @ acc) (drop 4 r)
                            | Some rr1 \<Rightarrow>
                                if rr < 0xDC00 \<and> 0xDC00 \<le> rr1 \<and> rr1 < 0xE000 then
                                  unquoteBody
                                    (rev (utf8Encode ((rr - 0xD800) * 1024 + (rr1 - 0xDC00) + 0x10000)) @ acc)
                                    (drop 10 r)
                                else unquoteBody (rev replacementChar @ acc) (drop 4 r))
                         else unquoteBody (rev (utf8Encode rr) @ acc) (drop 4 r))))
      else if byte c < 0x20 then None
      else if byte c < 0x80 then unquoteBody (c # acc) cs
      else if runeLen (c # cs) = 0 then unquoteBody (rev replacementChar @ acc) cs
      else unquoteBody (rev (take (runeLen (c # cs)) (c # cs)) @ acc) (drop (runeLen (c # cs) - 1) cs))"

definition parseNumber :: "string \<Rightarrow> (string \<times> string) option" where
  "parseNumber s =
     (let s1 = (if s \<noteq> [] \<and> hd s = CHR ''-'' then tl s else s)
      in if s1 = [] \<or> \<not> isDigit (hd s1) then None
         else
           let s2 = (if hd s1 = CHR ''0'' then tl s1 else dropWhile isDigit s1)
           in if s2 \<noteq> [] \<and> hd s2 = CHR ''.'' \<and> (tl s2 = [] \<or> \<not> isDigit (hd (tl s2))) then None
              else
                let s3 = (if s2 \<noteq> [] \<and> hd s2 = CHR ''.'' then dropWhile isDigit (tl s2) else s2)
                in if s3 \<noteq> [] \<and> (hd s3 = CHR ''e'' \<or> hd s3 = CHR ''E'') then
                     let s4 = (if tl s3 \<noteq> [] \<and> (hd (tl s3) = CHR ''+'' \<or> hd (tl s3) = CHR ''-'')
                               then tl (tl s3) else tl s3)
                     in if s4 = [] \<or> \<not> isDigit (hd s4) then None
                        else Some (take (length s - length (dropWhile isDigit s4)) s, dropWhile isDigit s4)
                   else Some (take (length s - length s3) s, s3))"

definition parseLiteral :: "string \<Rightarrow> (json \<times> string) option" where
  "parseLiteral s =
     (if take 4 s = ''true'' then Some (JBool True, drop 4 s)
      else if take 5 s = ''false'' then Some (JBool False, drop 5 s)
      else if take 4 s = ''null'' then Some (JNull, drop 4 s)
      else None)"

lemma unquoteBody_length: "unquoteBody acc s = Some (k, r) \<Longrightarrow> length r < length s"
  by (induction acc s arbitrary: k r rule: unquoteBody.induct)
    (fastforce split: if_splits option.splits list.splits)+

lemma length_skipWS: "length (skipWS s) \<le> length s"
  by (simp add: skipWS_def length_dropWhile_le)

definition maxNestingDepth :: nat where
  "maxNestingDepth = 10000"

function parseValue :: "nat \<Rightarrow> string \<Rightarrow> (json \<times> string) option"
  and parseElems :: "nat \<Rightarrow> json list \<Rightarrow> string \<Rightarrow> (json \<times> string) option"
  and parseMembers :: "nat \<Rightarrow> (string \<times> json) list \<Rightarrow> string \<Rightarrow> (json \<times> string) option"
where
  "parseValue d s =
     (case s of
        [] \<Rightarrow> None
      | c # r \<Rightarrow>
          if c = CHR ''{'' then
            (if maxNestingDepth < d + 1 then None
             else (case skipWS r of
                     [] \<Rightarrow> None
                   | c' # r' \<Rightarrow>
                       if c' = CHR ''}'' then Some (JObject [], r')
                       else parseMembers (d + 1) [] (c' # r')))
          else if c = CHR ''['' then
            (if maxNestingDepth < d + 1 then None
             else (case skipWS r of
                     [] \<Rightarrow> None
                   | c' # r' \<Rightarrow>
                       if c' = CHR '']'' then Some (JArray [], r')
                       else parseElems (d + 1) [] (c' # r')))
          else if c = CHR 0x22 then
            (case unquoteBody [] r of None \<Rightarrow> None | Some (x, r') \<Rightarrow> Some (JString x, r'))
          else if c = CHR ''-'' \<or> isDigit c then
            (case parseNumber s of None \<Rightarrow> None | Some (x, r') \<Rightarrow> Some (JNumber x, r'))
          else parseLiteral s)"
| "parseElems d acc s =
     (case parseValue d s of
        None \<Rightarrow> None
      | Some (v, r) \<Rightarrow>
          (case skipWS r of
             [] \<Rightarrow> None
           | c # r' \<Rightarrow>
               if c = CHR '','' then
                 (if length r' < length s then parseElems d (v # acc) (skipWS r') else None)
               else if c = CHR '']'' then Some (JArray (rev (v # acc)), r')
               else None))"
| "parseMembers d acc s =
     (case s of
        [] \<Rightarrow> None
      | q # r \<Rightarrow>
          if q \<noteq> CHR 0x22 then None
          else
            (case unquoteBody [] r of
               None \<Rightarrow> None
             | Some (k, r1) \<Rightarrow>
                 (case skipWS r1 of
                    [] \<Rightarrow> None
                  | c1 # r2 \<Rightarrow>
                      if c1 \<noteq> CHR '':'' then None
                      else
                        (case parseValue d (skipWS r2) of
                           None \<Rightarrow> None
                         | Some (v, r3) \<Rightarrow>
                             (case skipWS r3 of
                                [] \<Rightarrow> None
                              | c3 # r4 \<Rightarrow>
                                  if c3 = CHR '','' then
                                    (if length r4 < length s
                                     then parseMembers d ((k, v) # acc) (skipWS r4) else None)
                                  else if c3 = CHR ''}'' then Some (JObject (rev ((k, v) # acc)), r4)
                                  else None)))))"
  by pat_completeness auto

termination
proof (relation "measure (\<lambda>x. case x of
          Inl (d, s) \<Rightarrow> 2 * length s
        | Inr (Inl (d, acc, s)) \<Rightarrow> 2 * length s + 1
        | Inr (Inr (d, acc, s)) \<Rightarrow> 2 * length s + 1)", goal_cases)
  case 1
  then show ?case by simp
next
  case (2 d s c r c' r')
  then show ?case using length_skipWS [of r] by simp
next
  case (3 d s c r c' r')
  then show ?case using length_skipWS [of r] by simp
next
  case (4 d acc s)
  then show ?case by simp
next
  case (5 d acc s x v r c r')
  then show ?case using length_skipWS [of r'] by simp
next
  case (6 d acc s q r x k r1 c1 r2)
  then show ?case
    using unquoteBody_length [of "[]" r k r1] length_skipWS [of r1] length_skipWS [of r2]
    by simp
next
  case (7 d acc s q r x k r1 c1 r2 y v r3 c3 r4)
  then show ?case using length_skipWS [of r4] by simp
qed

definition parseJSON :: "string \<Rightarrow> json option" where
  "parseJSON s =
     (case parseValue 0 (skipWS s) of
        None \<Rightarrow> None
      | Some (v, r) \<Rightarrow> if skipWS r = [] then Some v else None)"


lemma length_dropDigits: "length (dropWhile isDigit s) \<le> length s"
  by (simp add: length_dropWhile_le)

lemma length_tl_less: "s \<noteq> [] \<Longrightarrow> length (tl s) < length s"
  by (cases s) auto

lemma parseNumber_length: "parseNumber s = Some (x, r) \<Longrightarrow> length r < length s"
proof -
  assume a: "parseNumber s = Some (x, r)"
  define s1 where "s1 = (if s \<noteq> [] \<and> hd s = CHR ''-'' then tl s else s)"
  define s2 where "s2 = (if hd s1 = CHR ''0'' then tl s1 else dropWhile isDigit s1)"
  define s3 where "s3 = (if s2 \<noteq> [] \<and> hd s2 = CHR ''.'' then dropWhile isDigit (tl s2) else s2)"
  define s4 where "s4 = (if tl s3 \<noteq> [] \<and> (hd (tl s3) = CHR ''+'' \<or> hd (tl s3) = CHR ''-'')
                               then tl (tl s3) else tl s3)"
  from a have n1: "s1 \<noteq> []" and d1: "isDigit (hd s1)"
    by (auto simp: parseNumber_def Let_def s1_def split: if_splits)
  have l1: "length s1 \<le> length s"
    by (cases s) (auto simp: s1_def)
  have "length s2 < length s1"
  proof (cases "hd s1 = CHR ''0''")
    case True
    then show ?thesis using n1 by (simp add: s2_def length_tl_less)
  next
    case False
    from n1 d1 have "dropWhile isDigit s1 = dropWhile isDigit (tl s1)"
      by (cases s1) auto
    then show ?thesis
      using False n1 length_dropDigits [of "tl s1"] by (cases s1) (auto simp: s2_def)
  qed
  moreover have "length s3 \<le> length s2"
    using length_dropDigits [of "tl s2"] by (cases s2) (auto simp: s3_def)
  moreover have "length s4 \<le> length s3"
    by (cases s3; cases "tl s3") (auto simp: s4_def)
  moreover have "r = s3 \<or> r = dropWhile isDigit s4"
    using a unfolding parseNumber_def Let_def s1_def [symmetric] s2_def [symmetric]
      s3_def [symmetric] s4_def [symmetric]
    by (auto split: if_splits)
  ultimately show ?thesis
    using l1 length_dropDigits [of s4] by auto
qed

lemma parseLiteral_length: "parseLiteral s = Some (x, r) \<Longrightarrow> length r < length s"
  by (cases s) (auto simp: parseLiteral_def split: if_splits)

declare parseValue.simps [simp del] parseElems.simps [simp del] parseMembers.simps [simp del]

lemma skipWS_Cons_length: "skipWS r = c # r' \<Longrightarrow> length r' < length r"
  using length_skipWS [of r] by simp

lemma parse_length:
  "parseValue d s = Some (v, r) \<Longrightarrow> length r < length s"
  "parseElems d1 acc1 s1 = Some (v1, r1) \<Longrightarrow> length r1 < length s1"
  "parseMembers d2 acc2 s2 = Some (v2, r2) \<Longrightarrow> length r2 < length s2"
proof (induction d s and d1 acc1 s1 and d2 acc2 s2 arbitrary: v r and v1 r1 and v2 r2
    rule: parseValue_parseElems_parseMembers.induct)
  case (1 d s)
  note p = "1.prems" [unfolded parseValue.simps [of d s]]
  show ?case
  proof (cases s)
    case Nil
    with p show ?thesis by simp
  next
    case (Cons c t)
    show ?thesis
    proof (cases "c = CHR ''{'' \<or> c = CHR ''[''")
      case True
      with p Cons obtain c' t' where sk: "skipWS t = c' # t'" and d: "\<not> maxNestingDepth < d + 1"
        by (auto split: list.splits if_splits)
      have lt: "length t' < length t" using sk by (rule skipWS_Cons_length)
      show ?thesis
      proof (cases "c = CHR ''{''")
        case True
        show ?thesis
        proof (cases "c' = CHR ''}''")
          case True
          with p Cons \<open>c = CHR ''{''\<close> sk d lt show ?thesis by auto
        next
          case False
          with p Cons \<open>c = CHR ''{''\<close> sk d
          have "parseMembers (d + 1) [] (c' # t') = Some (v, r)" by auto
          from "1.IH"(1) [OF Cons \<open>c = CHR ''{''\<close> d sk False this] lt Cons
          show ?thesis by simp
        qed
      next
        case False
        with True have b: "c = CHR ''[''" by simp
        show ?thesis
        proof (cases "c' = CHR '']''")
          case True
          with p Cons False b sk d lt show ?thesis by auto
        next
          case c: False
          with p Cons False b sk d
          have "parseElems (d + 1) [] (c' # t') = Some (v, r)" by auto
          from "1.IH"(2) [OF Cons False b d sk c this] lt Cons
          show ?thesis by simp
        qed
      qed
    next
      case False
      with p Cons show ?thesis
        by (auto split: if_splits option.splits
            dest: unquoteBody_length parseNumber_length parseLiteral_length)
    qed
  qed
next
  case (2 d acc s)
  note p = "2.prems" [unfolded parseElems.simps [of d acc s]]
  from p obtain v' t where pv: "parseValue d s = Some (v', t)"
    by (auto split: option.splits)
  have lt: "length t < length s" using pv by (rule "2.IH"(1))
  from p pv obtain c t' where sk: "skipWS t = c # t'"
    by (auto split: list.splits)
  have lt': "length t' < length t" using sk by (rule skipWS_Cons_length)
  show ?case
  proof (cases "c = CHR '',''")
    case True
    with p pv sk have g: "length t' < length s"
      and rec: "parseElems d (v' # acc) (skipWS t') = Some (v1, r1)"
      by (auto split: if_splits)
    from "2.IH"(2) [OF pv refl sk True g rec] length_skipWS [of t'] g
    show ?thesis by simp
  next
    case False
    with p pv sk lt lt' show ?thesis by (auto split: if_splits)
  qed
next
  case (3 d acc s)
  note p = "3.prems" [unfolded parseMembers.simps [of d acc s]]
  from p obtain q t where s: "s = q # t" and q: "\<not> q \<noteq> CHR 0x22"
    by (auto split: list.splits if_splits)
  from p s q obtain k t1 where uq: "unquoteBody [] t = Some (k, t1)"
    by (auto split: option.splits)
  from p s q uq obtain c1 t2 where sk1: "skipWS t1 = c1 # t2" and c1: "\<not> c1 \<noteq> CHR '':''"
    by (auto split: list.splits if_splits)
  from p s q uq sk1 c1 obtain v' t3 where pv: "parseValue d (skipWS t2) = Some (v', t3)"
    by (auto split: option.splits)
  from p s q uq sk1 c1 pv obtain c3 t4 where sk3: "skipWS t3 = c3 # t4"
    by (auto split: list.splits)
  have l1: "length t1 < length t" using uq by (rule unquoteBody_length)
  have l2: "length t2 < length t1" using sk1 by (rule skipWS_Cons_length)
  have l3: "length t3 < length (skipWS t2)"
    using "3.IH"(1) [OF s q uq refl sk1 c1 pv] .
  have l4: "length t4 < length t3" using sk3 by (rule skipWS_Cons_length)
  show ?case
  proof (cases "c3 = CHR '',''")
    case True
    with p s q uq sk1 c1 pv sk3 have g: "length t4 < length s"
      and rec: "parseMembers d ((k, v') # acc) (skipWS t4) = Some (v2, r2)"
      by (auto split: if_splits)
    from "3.IH"(2) [OF s q uq refl sk1 c1 pv refl sk3 True g rec] length_skipWS [of t4] g
    show ?thesis by simp
  next
    case False
    with p s q uq sk1 c1 pv sk3 l1 l2 l3 l4 length_skipWS [of t2] show ?thesis
      by (auto split: if_splits)
  qed
qed

subsection \<open>encoding/json: decoding into ListClustersResponse\<close>

fun foldName :: "string \<Rightarrow> string" where
  "foldName [] = []"
| "foldName (c # cs) =
     (if 97 \<le> byte c \<and> byte c \<le> 122 then char_of (byte c - 32) # foldName cs
      else if c = CHR 0xC5 \<and> take 1 cs = [CHR 0xBF] then CHR ''S'' # foldName (drop 1 cs)
      else if c = CHR 0xE2 \<and> take 2 cs = [CHR 0x84, CHR 0xAA] then CHR ''K'' # foldName (drop 2 cs)
      else c # foldName cs)"

datatype json_error = SyntaxError | UnmarshalTypeError

definition elemStore :: "json \<Rightarrow> string \<Rightarrow> string option" where
  "elemStore e old =
     (case e of JString x \<Rightarrow> Some x | JNull \<Rightarrow> Some old | _ \<Rightarrow> None)"

fun arrayStore :: "json list \<Rightarrow> string list \<Rightarrow> string list option" where
  "arrayStore [] b = Some []"
| "arrayStore (e # es) b =
     (case elemStore e (case b of [] \<Rightarrow> [] | old # _ \<Rightarrow> old) of
        None \<Rightarrow> None
      | Some x \<Rightarrow>
          (case arrayStore es (tl b) of None \<Rightarrow> None | Some xs \<Rightarrow> Some (x # xs)))"

definition fieldStore :: "json \<Rightarrow> string list \<times> string list \<Rightarrow> (string list \<times> string list) option" where
  "fieldStore v sl =
     (case v of
        JNull \<Rightarrow> Some ([], [])
      | JArray es \<Rightarrow>
          (case arrayStore es (fst sl @ snd sl) of
             None \<Rightarrow> None
           | Some xs \<Rightarrow>
               if es = [] then Some ([], []) else Some (xs, drop (length es) (fst sl @ snd sl)))
      | _ \<Rightarrow> None)"

fun objectStore ::
  "(string \<times> json) list \<Rightarrow> string list \<times> string list \<Rightarrow> (string list \<times> string list) option" where
  "objectStore [] sl = Some sl"
| "objectStore ((k, v) # kvs) sl =
     (if foldName k = foldName ''clusters'' then
        (case fieldStore v sl of None \<Rightarrow> None | Some sl' \<Rightarrow> objectStore kvs sl')
      else objectStore kvs sl)"

definition Unmarshal :: "string \<Rightarrow> json_error + string list" where
  "Unmarshal data =
     (case parseJSON data of
        None \<Rightarrow> Inl SyntaxError
      | Some JNull \<Rightarrow> Inr []
      | Some (JObject kvs) \<Rightarrow>
          (case objectStore kvs ([], []) of
             None \<Rightarrow> Inl UnmarshalTypeError
           | Some sl \<Rightarrow> Inr (fst sl))
      | Some _ \<Rightarrow> Inl UnmarshalTypeError)"

section \<open>The program: main.go\<close>

subsection \<open>Data\<close>

record Config =
  Profile :: string
  Region :: string
  Cluster :: string
  Interactive :: bool
  SkipSSO :: bool
  DefaultRegion :: string

record ProfileInfo =
  Name :: string
  ProfileRegion :: string

datatype error =
    CommandFailed
  | EOF
  | RunFailed
  | JSONError json_error
  | DependencyNotFound string
  | ListProfilesFailed error
  | NoProfiles
  | ReadInputFailed error
  | CheckSessionFailed error
  | SSOLoginFailed error
  | ListClustersFailed error
  | ParseClustersFailed error
  | NoClusters string string
  | UpdateKubeconfigFailed error

datatype msg =
    MsgCheckingDependencies
  | MsgDepFound string
  | MsgUsingProfile string string
  | MsgAvailableProfiles
  | MsgProfileItem nat string string
  | MsgSelectProfile nat
  | MsgInvalidSelection nat
  | MsgSessionValid
  | MsgLoggingIn
  | MsgLoginSuccessful
  | MsgFetchingClusters
  | MsgUsingCluster string
  | MsgAvailableClusters string
  | MsgClusterItem nat string
  | MsgSelectCluster nat
  | MsgUpdatingKubeconfig string
  | MsgKubeconfigUpdated
  | MsgVerifying
  | MsgUnableToVerify
  | MsgConnected
  | MsgCurrentContext string
  | MsgClusterInfo string
  | MsgLoginComplete
  | MsgSummaryProfile string
  | MsgSummaryRegion string
  | MsgSummaryCluster string
  | MsgYouCanNow
  | MsgError error
  | MsgVersion

datatype event =
    Print msg
  | ExecOutput string "string list" bool
  | ExecRun string "string list" bool

record 'p os =
  lookPath :: "'p \<Rightarrow> string \<Rightarrow> bool"
  cmdOutput :: "'p \<Rightarrow> string \<Rightarrow> string list \<Rightarrow> string option \<times> 'p"
  cmdRun :: "'p \<Rightarrow> string \<Rightarrow> string list \<Rightarrow> bool \<times> 'p"
  cmdRunStdin :: "'p \<Rightarrow> string list \<Rightarrow> string \<Rightarrow> string list \<Rightarrow> bool \<times> 'p \<times> string list"

record 'p run_state =
  config :: Config
  procs :: 'p
  stdin :: "string list"
  trace :: "event list"

definition emit :: "msg \<Rightarrow> 'p run_state \<Rightarrow> 'p run_state" where
  "emit m s = s\<lparr>trace := trace s @ [Print m]\<rparr>"

definition NewEKSLoginApp :: Config where
  "NewEKSLoginApp =
     \<lparr>Profile = [], Region = [], Cluster = [], Interactive = True, SkipSSO = False,
      DefaultRegion = ''us-west-2''\<rparr>"

definition Execute ::
  "'p os \<Rightarrow> string \<Rightarrow> string list \<Rightarrow> 'p run_state \<Rightarrow> (string \<times> error option) \<times> 'p run_state" where
  "Execute os command args s =
     (case cmdOutput os (procs s) command args of
        (out, p') \<Rightarrow>
          let s' = s\<lparr>procs := p', trace := trace s @ [ExecOutput command args (out \<noteq> None)]\<rparr>
          in (case out of
                None \<Rightarrow> (([], Some CommandFailed), s')
              | Some output \<Rightarrow> ((TrimSpace output, None), s')))"

fun checkDepsLoop :: "'p os \<Rightarrow> string list \<Rightarrow> 'p run_state \<Rightarrow> error option \<times> 'p run_state" where
  "checkDepsLoop os [] s = (None, s)"
| "checkDepsLoop os (dep # deps) s =
     (if \<not> lookPath os (procs s) dep then (Some (DependencyNotFound dep), s)
      else checkDepsLoop os deps (emit (MsgDepFound dep) s))"

definition CheckDependencies :: "'p os \<Rightarrow> 'p run_state \<Rightarrow> error option \<times> 'p run_state" where
  "CheckDependencies os s =
     checkDepsLoop os [''aws'', ''kubectl''] (emit MsgCheckingDependencies s)"

fun profilesLoop ::
  "'p os \<Rightarrow> string list \<Rightarrow> ProfileInfo list \<Rightarrow> 'p run_state \<Rightarrow> ProfileInfo list \<times> 'p run_state" where
  "profilesLoop os [] profiles s = (profiles, s)"
| "profilesLoop os (l # ls) profiles s =
     (let line = TrimSpace l
      in if line \<noteq> [] then
           (case Execute os ''aws'' [''configure'', ''get'', ''region'', ''--profile'', line] s of
              ((region, _), s1) \<Rightarrow>
                profilesLoop os ls
                  (profiles @
                   [\<lparr>Name = line,
                     ProfileRegion = (if region = [] then DefaultRegion (config s1) else region)\<rparr>])
                  s1)
         else profilesLoop os ls profiles s)"

definition GetAWSProfiles ::
  "'p os \<Rightarrow> 'p run_state \<Rightarrow> (error + ProfileInfo list) \<times> 'p run_state" where
  "GetAWSProfiles os s =
     (case Execute os ''aws'' [''configure'', ''list-profiles''] s of
        ((output, Some err), s1) \<Rightarrow> (Inl (ListProfilesFailed err), s1)
      | ((output, None), s1) \<Rightarrow>
          (case profilesLoop os (Split output) [] s1 of
             (profiles, s2) \<Rightarrow> (Inr profiles, s2)))"

fun ReadString :: "string \<Rightarrow> string list \<Rightarrow> (error + string) \<times> string \<times> string list" where
  "ReadString buf ins =
     (if CHR 0x0A \<in> set buf then
        (Inr (takeWhile (\<lambda>c. c \<noteq> CHR 0x0A) buf @ [CHR 0x0A]),
         tl (dropWhile (\<lambda>c. c \<noteq> CHR 0x0A) buf), ins)
      else (case ins of
              [] \<Rightarrow> (Inl EOF, [], [])
            | chunk # rest \<Rightarrow> ReadString (buf @ chunk) rest))"

declare ReadString.simps [simp del]

lemma ReadString_consumes:
  "ReadString buf ins = (Inr line, buf', ins') \<Longrightarrow>
   length buf' + length (concat ins') < length buf + length (concat ins)"
proof (induction buf ins rule: ReadString.induct)
  case (1 buf ins)
  show ?case
  proof (cases "CHR 0x0A \<in> set buf")
    case True
    then have "dropWhile (\<lambda>c. c \<noteq> CHR 0x0A) buf \<noteq> []" by simp
    then have "length (tl (dropWhile (\<lambda>c. c \<noteq> CHR 0x0A) buf)) < length buf"
      using length_dropWhile_le [of "\<lambda>c. c \<noteq> CHR 0x0A" buf]
      by (cases "dropWhile (\<lambda>c. c \<noteq> CHR 0x0A) buf") auto
    with True "1.prems" show ?thesis
      by (auto simp: ReadString.simps [of buf ins])
  next
    case False
    with "1.prems" obtain chunk rest where i: "ins = chunk # rest"
      and r: "ReadString (buf @ chunk) rest = (Inr line, buf', ins')"
      by (auto simp: ReadString.simps [of buf ins] split: list.splits)
    from "1.IH" [OF False i r] i show ?thesis by simp
  qed
qed

definition invalidChoice :: "int option \<Rightarrow> nat \<Rightarrow> bool" where
  "invalidChoice r n \<longleftrightarrow> (case r of None \<Rightarrow> True | Some choice \<Rightarrow> choice < 1 \<or> int n < choice)"

function selectProfileLoop ::
  "ProfileInfo list \<Rightarrow> string \<Rightarrow> 'p run_state \<Rightarrow> error option \<times> 'p run_state" where
  "selectProfileLoop profiles buf s =
     (let s1 = emit (MsgSelectProfile (length profiles)) s
      in case ReadString buf (stdin s1) of
           (Inl err, buf', ins') \<Rightarrow> (Some (ReadInputFailed err), s1\<lparr>stdin := ins'\<rparr>)
         | (Inr input, buf', ins') \<Rightarrow>
             if invalidChoice (Atoi (TrimSpace input)) (length profiles) then
               selectProfileLoop profiles buf'
                 (emit (MsgInvalidSelection (length profiles)) (s1\<lparr>stdin := ins'\<rparr>))
             else
               let selectedProfile = profiles ! nat (the (Atoi (TrimSpace input)) - 1)
               in (None,
                   s1\<lparr>stdin := ins',
                      config := (config s1)\<lparr>Profile := Name selectedProfile,
                                             Region := ProfileRegion selectedProfile\<rparr>\<rparr>))"
  by pat_completeness auto
termination
  by (relation "measure (\<lambda>(profiles, buf, s). length buf + length (concat (stdin s)))")
    (auto simp: emit_def dest: ReadString_consumes [OF sym])

definition SelectProfile :: "'p os \<Rightarrow> 'p run_state \<Rightarrow> error option \<times> 'p run_state" where
  "SelectProfile os s =
     (case GetAWSProfiles os s of
        (Inl err, s1) \<Rightarrow> (Some err, s1)
      | (Inr profiles, s1) \<Rightarrow>
          if length profiles = 0 then (Some NoProfiles, s1)
          else if length profiles = 1 then
            (let s2 = s1\<lparr>config := (config s1)\<lparr>Profile := Name (profiles ! 0),
                                                   Region := ProfileRegion (profiles ! 0)\<rparr>\<rparr>
             in (None, emit (MsgUsingProfile (Profile (config s2)) (Region (config s2))) s2))
          else
            selectProfileLoop profiles []
              (foldl (\<lambda>st (i, profile). emit (MsgProfileItem (i + 1) (Name profile) (ProfileRegion profile)) st)
                 (emit MsgAvailableProfiles s1) (enumerate 0 profiles)))"

definition CheckSSOSession :: "'p os \<Rightarrow> 'p run_state \<Rightarrow> (bool \<times> error option) \<times> 'p run_state" where
  "CheckSSOSession os s =
     (case Execute os ''aws'' [''sts'', ''get-caller-identity'', ''--profile'', Profile (config s)] s of
        ((_, err), s1) \<Rightarrow> ((err = None, None), s1))"

definition LoginSSO :: "'p os \<Rightarrow> 'p run_state \<Rightarrow> error option \<times> 'p run_state" where
  "LoginSSO os s =
     (if SkipSSO (config s) then (None, s)
      else
        let s1 = emit MsgLoggingIn s;
            args = [''sso'', ''login'', ''--profile'', Profile (config s1)]
        in case cmdRunStdin os (procs s1) (stdin s1) ''aws'' args of
             (ok, p', ins') \<Rightarrow>
               let s2 = s1\<lparr>procs := p', stdin := ins', trace := trace s1 @ [ExecRun ''aws'' args ok]\<rparr>
               in if \<not> ok then (Some (SSOLoginFailed RunFailed), s2)
                  else (None, emit MsgLoginSuccessful s2))"

definition ListEKSClusters :: "'p os \<Rightarrow> 'p run_state \<Rightarrow> (error + string list) \<times> 'p run_state" where
  "ListEKSClusters os s =
     (case Execute os ''aws''
             [''eks'', ''list-clusters'', ''--profile'', Profile (config s),
              ''--region'', Region (config s), ''--output'', ''json'']
             (emit MsgFetchingClusters s) of
        ((output, Some err), s1) \<Rightarrow> (Inl (ListClustersFailed err), s1)
      | ((output, None), s1) \<Rightarrow>
          (case Unmarshal output of
             Inl err \<Rightarrow> (Inl (ParseClustersFailed (JSONError err)), s1)
           | Inr clusters \<Rightarrow> (Inr clusters, s1)))"

function selectClusterLoop ::
  "string list \<Rightarrow> string \<Rightarrow> 'p run_state \<Rightarrow> error option \<times> 'p run_state" where
  "selectClusterLoop clusters buf s =
     (let s1 = emit (MsgSelectCluster (length clusters)) s
      in case ReadString buf (stdin s1) of
           (Inl err, buf', ins') \<Rightarrow> (Some (ReadInputFailed err), s1\<lparr>stdin := ins'\<rparr>)
         | (Inr input, buf', ins') \<Rightarrow>
             if invalidChoice (Atoi (TrimSpace input)) (length clusters) then
               selectClusterLoop clusters buf'
                 (emit (MsgInvalidSelection (length clusters)) (s1\<lparr>stdin := ins'\<rparr>))
             else
               (None,
                s1\<lparr>stdin := ins',
                   config := (config s1)\<lparr>Cluster :=
                     clusters ! nat (the (Atoi (TrimSpace input)) - 1)\<rparr>\<rparr>))"
  by pat_completeness auto
termination
  by (relation "measure (\<lambda>(clusters, buf, s). length buf + length (concat (stdin s)))")
    (auto simp: emit_def dest: ReadString_consumes [OF sym])

definition SelectCluster :: "'p os \<Rightarrow> 'p run_state \<Rightarrow> error option \<times> 'p run_state" where
  "SelectCluster os s =
     (case ListEKSClusters os s of
        (Inl err, s1) \<Rightarrow> (Some err, s1)
      | (Inr clusters, s1) \<Rightarrow>
          if length clusters = 0 then
            (Some (NoClusters (Region (config s1)) (Profile (config s1))), s1)
          else if length clusters = 1 then
            (let s2 = s1\<lparr>config := (config s1)\<lparr>Cluster := clusters ! 0\<rparr>\<rparr>
             in (None, emit (MsgUsingCluster (Cluster (config s2))) s2))
          else
            selectClusterLoop clusters []
              (foldl (\<lambda>st (i, cluster). emit (MsgClusterItem (i + 1) cluster) st)
                 (emit (MsgAvailableClusters (Region (config s1))) s1) (enumerate 0 clusters)))"

definition UpdateKubeconfig :: "'p os \<Rightarrow> 'p run_state \<Rightarrow> error option \<times> 'p run_state" where
  "UpdateKubeconfig os s =
     (let s1 = emit (MsgUpdatingKubeconfig (Cluster (config s))) s;
          args = [''eks'', ''update-kubeconfig'',
                  ''--region'', Region (config s1),
                  ''--name'', Cluster (config s1),
                  ''--profile'', Profile (config s1)]
      in case cmdRun os (procs s1) ''aws'' args of
           (ok, p') \<Rightarrow>
             let s2 = s1\<lparr>procs := p', trace := trace s1 @ [ExecRun ''aws'' args ok]\<rparr>
             in if \<not> ok then (Some (UpdateKubeconfigFailed RunFailed), s2)
                else (None, emit MsgKubeconfigUpdated s2))"

definition VerifyConnection :: "'p os \<Rightarrow> 'p run_state \<Rightarrow> error option \<times> 'p run_state" where
  "VerifyConnection os s =
     (case Execute os ''kubectl'' [''cluster-info''] (emit MsgVerifying s) of
        ((output, Some err), s1) \<Rightarrow> (None, emit MsgUnableToVerify s1)
      | ((output, None), s1) \<Rightarrow>
          (case Execute os ''kubectl'' [''config'', ''current-context''] (emit MsgConnected s1) of
             ((context, err), s2) \<Rightarrow>
               (None,
                emit (MsgClusterInfo (TrimSpace output))
                  (if err = None then emit (MsgCurrentContext context) s2 else s2))))"

definition ShowSummary :: "'p run_state \<Rightarrow> 'p run_state" where
  "ShowSummary s =
     emit MsgYouCanNow
       (emit (MsgSummaryCluster (Cluster (config s)))
          (emit (MsgSummaryRegion (Region (config s)))
             (emit (MsgSummaryProfile (Profile (config s)))
                (emit MsgLoginComplete s))))"

definition Run :: "'p os \<Rightarrow> 'p run_state \<Rightarrow> error option \<times> 'p run_state" where
  "Run os s =
     (case CheckDependencies os s of
        (Some err, s1) \<Rightarrow> (Some err, s1)
      | (None, s1) \<Rightarrow>
     (case (if Profile (config s1) = [] then SelectProfile os s1 else (None, s1)) of
        (Some err, s2) \<Rightarrow> (Some err, s2)
      | (None, s2) \<Rightarrow>
     (case (case CheckSSOSession os s2 of
              ((sessionValid, Some err), s3) \<Rightarrow> (Some (CheckSessionFailed err), s3)
            | ((sessionValid, None), s3) \<Rightarrow>
                if sessionValid then (None, emit MsgSessionValid s3) else LoginSSO os s3) of
        (Some err, s4) \<Rightarrow> (Some err, s4)
      | (None, s4) \<Rightarrow>
     (case (if Cluster (config s4) = [] then SelectCluster os s4 else (None, s4)) of
        (Some err, s5) \<Rightarrow> (Some err, s5)
      | (None, s5) \<Rightarrow>
     (case UpdateKubeconfig os s5 of
        (Some err, s6) \<Rightarrow> (Some err, s6)
      | (None, s6) \<Rightarrow>
     (case VerifyConnection os s6 of
        (Some err, s7) \<Rightarrow> (Some err, s7)
      | (None, s7) \<Rightarrow> (None, ShowSummary s7)))))))"

record Flags =
  flagProfile :: "string option"
  flagRegion :: "string option"
  flagCluster :: "string option"
  flagSkipSSO :: "bool option"
  flagInteractive :: "bool option"

datatype invocation = RootCmd Flags | VersionCmd

definition registerFlags :: "Config \<Rightarrow> Config" where
  "registerFlags c =
     c\<lparr>Profile := [], Region := DefaultRegion c, Cluster := [], SkipSSO := False,
       Interactive := True\<rparr>"

definition parseFlags :: "Flags \<Rightarrow> Config \<Rightarrow> Config" where
  "parseFlags f c =
     c\<lparr>Profile := (case flagProfile f of None \<Rightarrow> Profile c | Some v \<Rightarrow> v),
       Region := (case flagRegion f of None \<Rightarrow> Region c | Some v \<Rightarrow> v),
       Cluster := (case flagCluster f of None \<Rightarrow> Cluster c | Some v \<Rightarrow> v),
       SkipSSO := (case flagSkipSSO f of None \<Rightarrow> SkipSSO c | Some v \<Rightarrow> v),
       Interactive := (case flagInteractive f of None \<Rightarrow> Interactive c | Some v \<Rightarrow> v)\<rparr>"

definition main :: "'p os \<Rightarrow> invocation \<Rightarrow> 'p \<Rightarrow> string list \<Rightarrow> nat \<times> 'p run_state" where
  "main os cmd p ins =
     (let app = registerFlags NewEKSLoginApp
      in case cmd of
           VersionCmd \<Rightarrow>
             (0, emit MsgVersion \<lparr>config = app, procs = p, stdin = ins, trace = []\<rparr>)
         | RootCmd f \<Rightarrow>
             (case Run os \<lparr>config = parseFlags f app, procs = p, stdin = ins, trace = []\<rparr> of
                (None, s) \<Rightarrow> (0, s)
              | (Some err, s) \<Rightarrow> (1, emit (MsgError err) s)))"

subsection \<open>Observations on traces\<close>

fun isPrint :: "event \<Rightarrow> bool" where
  "isPrint (Print m) = True"
| "isPrint _ = False"

fun isLogin :: "event \<Rightarrow> bool" where
  "isLogin (ExecRun c (a # b # args) ok) = (c = ''aws'' \<and> a = ''sso'' \<and> b = ''login'')"
| "isLogin _ = False"

fun isSessionCheck :: "event \<Rightarrow> bool" where
  "isSessionCheck (ExecOutput c (a # b # args) ok) =
     (c = ''aws'' \<and> a = ''sts'' \<and> b = ''get-caller-identity'')"
| "isSessionCheck _ = False"

fun isPrompt :: "event \<Rightarrow> bool" where
  "isPrompt (Print (MsgSelectProfile n)) = True"
| "isPrompt (Print (MsgSelectCluster n)) = True"
| "isPrompt _ = False"

fun isSubprocess :: "event \<Rightarrow> bool" where
  "isSubprocess (Print m) = False"
| "isSubprocess _ = True"

text \<open>The events of profile resolution: output, and \<open>aws configure ...\<close> calls.\<close>

fun profileEvent :: "event \<Rightarrow> bool" where
  "profileEvent (Print m) = True"
| "profileEvent (ExecOutput c (a # args) ok) = (c = ''aws'' \<and> a = ''configure'')"
| "profileEvent _ = False"

text \<open>The events of cluster resolution: output, and the \<open>aws eks list-clusters\<close> call.\<close>

fun clusterEvent :: "event \<Rightarrow> bool" where
  "clusterEvent (Print m) = True"
| "clusterEvent (ExecOutput c (a # b # args) ok) =
     (c = ''aws'' \<and> a = ''eks'' \<and> b = ''list-clusters'')"
| "clusterEvent _ = False"

definition summary :: "Config \<Rightarrow> event list" where
  "summary c =
     [Print MsgLoginComplete, Print (MsgSummaryProfile (Profile c)),
      Print (MsgSummaryRegion (Region c)), Print (MsgSummaryCluster (Cluster c)),
      Print MsgYouCanNow]"

subsection \<open>The steps of Run\<close>

definition profileStep :: "'p os \<Rightarrow> 'p run_state \<Rightarrow> error option \<times> 'p run_state" where
  "profileStep os s = (if Profile (config s) = [] then SelectProfile os s else (None, s))"

definition sessionStep :: "'p os \<Rightarrow> 'p run_state \<Rightarrow> error option \<times> 'p run_state" where
  "sessionStep os s =
     (case CheckSSOSession os s of
        ((sessionValid, Some err), s3) \<Rightarrow> (Some (CheckSessionFailed err), s3)
      | ((sessionValid, None), s3) \<Rightarrow>
          if sessionValid then (None, emit MsgSessionValid s3) else LoginSSO os s3)"

definition clusterStep :: "'p os \<Rightarrow> 'p run_state \<Rightarrow> error option \<times> 'p run_state" where
  "clusterStep os s = (if Cluster (config s) = [] then SelectCluster os s else (None, s))"

definition sessionTrace :: "Config \<Rightarrow> bool \<Rightarrow> bool \<Rightarrow> event list" where
  "sessionTrace c valid ok =
     ExecOutput ''aws'' [''sts'', ''get-caller-identity'', ''--profile'', Profile c] valid #
     (if valid then [Print MsgSessionValid]
      else if SkipSSO c then []
      else [Print MsgLoggingIn, ExecRun ''aws'' [''sso'', ''login'', ''--profile'', Profile c] ok] @
           (if ok then [Print MsgLoginSuccessful] else []))"

subsection \<open>Example environments\<close>

text \<open>
  An environment without state of its own: the executables \<open>path\<close> are found, a command with
  captured output answers \<open>outs\<close> of its command line (\<open>None\<close>: it fails), a command run on
  the terminal succeeds when \<open>runs\<close> of its command line holds and reads nothing from the
  standard input.
\<close>

definition staticOS ::
  "string list \<Rightarrow> (string list \<Rightarrow> string option) \<Rightarrow> (string list \<Rightarrow> bool) \<Rightarrow> unit os" where
  "staticOS path outs runs =
     \<lparr>lookPath = (\<lambda>p c. c \<in> set path),
      cmdOutput = (\<lambda>p c args. (outs (c # args), p)),
      cmdRun = (\<lambda>p c args. (runs (c # args), p)),
      cmdRunStdin = (\<lambda>p ins c args. (runs (c # args), p, ins))\<rparr>"

definition noFlags :: Flags where
  "noFlags =
     \<lparr>flagProfile = None, flagRegion = None, flagCluster = None, flagSkipSSO = None,
      flagInteractive = None\<rparr>"

definition flagsC1 :: Flags where
  "flagsC1 = noFlags\<lparr>flagProfile := Some ''a'', flagCluster := Some ''prod'', flagSkipSSO := Some True\<rparr>"

definition bareOS :: "unit os" where
  "bareOS = staticOS [''aws'', ''kubectl''] (\<lambda>cmd. None) (\<lambda>cmd. True)"

definition flagsProfile :: Flags where
  "flagsProfile = noFlags\<lparr>flagProfile := Some ''a''\<rparr>"




text \<open>The session events of a trace: the session checks and the logins, in order.\<close>

definition sessionPart :: "event list \<Rightarrow> event list" where
  "sessionPart t = filter (\<lambda>e. isLogin e \<or> isSessionCheck e) t"

definition sessionEvents :: "Config \<Rightarrow> bool \<Rightarrow> bool \<Rightarrow> event list" where
  "sessionEvents c valid ok =
     ExecOutput ''aws'' [''sts'', ''get-caller-identity'', ''--profile'', Profile c] valid #
     (if valid \<or> SkipSSO c then []
      else [ExecRun ''aws'' [''sso'', ''login'', ''--profile'', Profile c] ok])"

text \<open>A state with the interactive flag set to \<open>b\<close>.\<close>

definition setInteractive :: "bool \<Rightarrow> 'p run_state \<Rightarrow> 'p run_state" where
  "setInteractive b s = s\<lparr>config := (config s)\<lparr>Interactive := b\<rparr>\<rparr>"

text \<open>Sequencing of two steps: the second runs only if the first returned no error.\<close>

definition andThen ::
  "('s \<Rightarrow> error option \<times> 's) \<Rightarrow> ('s \<Rightarrow> error option \<times> 's) \<Rightarrow> 's \<Rightarrow> error option \<times> 's" where
  "andThen f k s = (case f s of (Some err, s1) \<Rightarrow> (Some err, s1) | (None, s1) \<Rightarrow> k s1)"

section \<open>Frame properties of the steps\<close>

lemma emit_simps [simp]:
  "config (emit m s) = config s"
  "procs (emit m s) = procs s"
  "stdin (emit m s) = stdin s"
  "trace (emit m s) = trace s @ [Print m]"
  by (simp_all add: emit_def)

lemma Execute_frame [simp]:
  "config (snd (Execute os c args s)) = config s"
  "stdin (snd (Execute os c args s)) = stdin s"
  "procs (snd (Execute os c args s)) = snd (cmdOutput os (procs s) c args)"
  "trace (snd (Execute os c args s)) =
     trace s @ [ExecOutput c args (fst (cmdOutput os (procs s) c args) \<noteq> None)]"
  by (simp_all add: Execute_def Let_def case_prod_beta split: option.splits)

lemma Execute_result:
  "fst (Execute os c args s) =
     (case fst (cmdOutput os (procs s) c args) of
        None \<Rightarrow> ([], Some CommandFailed)
      | Some output \<Rightarrow> (TrimSpace output, None))"
  by (simp add: Execute_def Let_def case_prod_beta split: option.splits)

lemma checkDepsLoop_frame [simp]:
  "config (snd (checkDepsLoop os deps s)) = config s"
  "stdin (snd (checkDepsLoop os deps s)) = stdin s"
  "procs (snd (checkDepsLoop os deps s)) = procs s"
  by (induction deps arbitrary: s; simp)+

lemma CheckDependencies_frame [simp]:
  "config (snd (CheckDependencies os s)) = config s"
  "stdin (snd (CheckDependencies os s)) = stdin s"
  "procs (snd (CheckDependencies os s)) = procs s"
  by (simp_all add: CheckDependencies_def)

lemma profilesLoop_frame [simp]:
  "config (snd (profilesLoop os ls ps s)) = config s"
  "stdin (snd (profilesLoop os ls ps s)) = stdin s"
  by (induction ls arbitrary: ps s; simp add: Let_def case_prod_beta)+

lemma GetAWSProfiles_frame [simp]:
  "config (snd (GetAWSProfiles os s)) = config s"
  "stdin (snd (GetAWSProfiles os s)) = stdin s"
  by (simp_all add: GetAWSProfiles_def case_prod_beta split: option.splits)

lemma CheckSSOSession_frame [simp]:
  "config (snd (CheckSSOSession os s)) = config s"
  "stdin (snd (CheckSSOSession os s)) = stdin s"
  by (simp_all add: CheckSSOSession_def case_prod_beta)

lemma LoginSSO_frame [simp]:
  "config (snd (LoginSSO os s)) = config s"
  by (simp add: LoginSSO_def Let_def case_prod_beta)

lemma ListEKSClusters_frame [simp]:
  "config (snd (ListEKSClusters os s)) = config s"
  "stdin (snd (ListEKSClusters os s)) = stdin s"
  by (simp_all add: ListEKSClusters_def case_prod_beta split: option.splits sum.splits)

lemma UpdateKubeconfig_frame [simp]:
  "config (snd (UpdateKubeconfig os s)) = config s"
  "stdin (snd (UpdateKubeconfig os s)) = stdin s"
  by (simp_all add: UpdateKubeconfig_def Let_def case_prod_beta)

lemma VerifyConnection_frame [simp]:
  "config (snd (VerifyConnection os s)) = config s"
  "stdin (snd (VerifyConnection os s)) = stdin s"
  by (simp_all add: VerifyConnection_def case_prod_beta split: option.splits)

lemma VerifyConnection_ok [simp]: "fst (VerifyConnection os s) = None"
  by (simp add: VerifyConnection_def case_prod_beta split: option.splits)

lemma ShowSummary_frame [simp]:
  "config (ShowSummary s) = config s"
  "stdin (ShowSummary s) = stdin s"
  "procs (ShowSummary s) = procs s"
  by (simp_all add: ShowSummary_def)

lemma CheckSSOSession_result:
  "fst (CheckSSOSession os s) =
     (fst (cmdOutput os (procs s) ''aws''
             [''sts'', ''get-caller-identity'', ''--profile'', Profile (config s)]) \<noteq> None,
      None)"
  by (simp add: CheckSSOSession_def Execute_result case_prod_beta split: option.splits)

section \<open>Reading lines and the selection loops, one step at a time\<close>

lemma ReadString_line:
  "CHR 0x0A \<in> set buf \<Longrightarrow>
   ReadString buf ins =
     (Inr (takeWhile (\<lambda>c. c \<noteq> CHR 0x0A) buf @ [CHR 0x0A]),
      tl (dropWhile (\<lambda>c. c \<noteq> CHR 0x0A) buf), ins)"
  by (subst ReadString.simps) simp

lemma ReadString_Nil: "CHR 0x0A \<notin> set buf \<Longrightarrow> ReadString buf [] = (Inl EOF, [], [])"
  by (subst ReadString.simps) simp

lemma ReadString_Cons:
  "CHR 0x0A \<notin> set buf \<Longrightarrow> ReadString buf (chunk # rest) = ReadString (buf @ chunk) rest"
  by (subst ReadString.simps) simp

lemma ReadString_error: "ReadString buf ins = (Inl err, buf', ins') \<Longrightarrow> err = EOF \<and> ins' = []"
proof (induction ins arbitrary: buf)
  case Nil
  then show ?case by (cases "CHR 0x0A \<in> set buf") (simp_all add: ReadString_line ReadString_Nil)
next
  case (Cons chunk rest)
  then show ?case by (cases "CHR 0x0A \<in> set buf") (simp_all add: ReadString_line ReadString_Cons)
qed

lemma read_loop_induct [consumes 0, case_names step]:
  assumes step: "\<And>buf s. (\<And>input b i m1 m2. ReadString buf (stdin s) = (Inr input, b, i) \<Longrightarrow>
                     P b (emit m2 ((emit m1 s)\<lparr>stdin := i\<rparr>))) \<Longrightarrow> P buf s"
  shows "P buf (s :: 'p run_state)"
proof (induction "length buf + length (concat (stdin s))" arbitrary: buf s rule: less_induct)
  case less
  show ?case
  proof (rule step)
    fix input b i m1 m2
    assume r: "ReadString buf (stdin s) = (Inr input, b, i)"
    from ReadString_consumes [OF r]
    have "length b + length (concat (stdin (emit m2 ((emit m1 s)\<lparr>stdin := i\<rparr>))))
            < length buf + length (concat (stdin s))" by simp
    then show "P b (emit m2 ((emit m1 s)\<lparr>stdin := i\<rparr>))" by (rule less.hyps)
  qed
qed

lemma selectProfileLoop_eof:
  "ReadString buf (stdin s) = (Inl err, b, i) \<Longrightarrow>
   selectProfileLoop profiles buf s =
     (Some (ReadInputFailed err), (emit (MsgSelectProfile (length profiles)) s)\<lparr>stdin := i\<rparr>)"
  by (subst selectProfileLoop.simps) (simp add: Let_def)

lemma selectProfileLoop_invalid:
  "ReadString buf (stdin s) = (Inr input, b, i) \<Longrightarrow>
   invalidChoice (Atoi (TrimSpace input)) (length profiles) \<Longrightarrow>
   selectProfileLoop profiles buf s =
     selectProfileLoop profiles b
       (emit (MsgInvalidSelection (length profiles))
          ((emit (MsgSelectProfile (length profiles)) s)\<lparr>stdin := i\<rparr>))"
  by (subst selectProfileLoop.simps) (simp add: Let_def)

lemma selectProfileLoop_valid:
  "ReadString buf (stdin s) = (Inr input, b, i) \<Longrightarrow>
   \<not> invalidChoice (Atoi (TrimSpace input)) (length profiles) \<Longrightarrow>
   selectProfileLoop profiles buf s =
     (None,
      (emit (MsgSelectProfile (length profiles)) s)
        \<lparr>stdin := i,
         config := (config s)
           \<lparr>Profile := Name (profiles ! nat (the (Atoi (TrimSpace input)) - 1)),
            Region := ProfileRegion (profiles ! nat (the (Atoi (TrimSpace input)) - 1))\<rparr>\<rparr>)"
  by (subst selectProfileLoop.simps) (simp add: Let_def)

lemma selectClusterLoop_eof:
  "ReadString buf (stdin s) = (Inl err, b, i) \<Longrightarrow>
   selectClusterLoop clusters buf s =
     (Some (ReadInputFailed err), (emit (MsgSelectCluster (length clusters)) s)\<lparr>stdin := i\<rparr>)"
  by (subst selectClusterLoop.simps) (simp add: Let_def)

lemma selectClusterLoop_invalid:
  "ReadString buf (stdin s) = (Inr input, b, i) \<Longrightarrow>
   invalidChoice (Atoi (TrimSpace input)) (length clusters) \<Longrightarrow>
   selectClusterLoop clusters buf s =
     selectClusterLoop clusters b
       (emit (MsgInvalidSelection (length clusters))
          ((emit (MsgSelectCluster (length clusters)) s)\<lparr>stdin := i\<rparr>))"
  by (subst selectClusterLoop.simps) (simp add: Let_def)

lemma selectClusterLoop_valid:
  "ReadString buf (stdin s) = (Inr input, b, i) \<Longrightarrow>
   \<not> invalidChoice (Atoi (TrimSpace input)) (length clusters) \<Longrightarrow>
   selectClusterLoop clusters buf s =
     (None,
      (emit (MsgSelectCluster (length clusters)) s)
        \<lparr>stdin := i,
         config := (config s)
           \<lparr>Cluster := clusters ! nat (the (Atoi (TrimSpace input)) - 1)\<rparr>\<rparr>)"
  by (subst selectClusterLoop.simps) (simp add: Let_def)

declare selectProfileLoop.simps [simp del] selectClusterLoop.simps [simp del]

lemma ReadString_cases:
  obtains (eof) b i where "ReadString buf ins = (Inl EOF, b, i)"
  | (line) input b i where "ReadString buf ins = (Inr input, b, i)"
proof (cases "ReadString buf ins")
  case (fields r b i)
  show ?thesis
  proof (cases r)
    case (Inl err)
    with fields ReadString_error [of buf ins err b i] eof show ?thesis by simp
  next
    case (Inr input)
    with fields line show ?thesis by simp
  qed
qed

lemma selectProfileLoop_errors:
  "fst (selectProfileLoop profiles buf s) = Some e \<Longrightarrow> e = ReadInputFailed EOF"
proof (induction buf s rule: read_loop_induct)
  case (step buf s)
  show ?case
  proof (cases buf "stdin s" rule: ReadString_cases)
    case (eof b i)
    with step.prems show ?thesis by (simp add: selectProfileLoop_eof)
  next
    case (line input b i)
    show ?thesis
    proof (cases "invalidChoice (Atoi (TrimSpace input)) (length profiles)")
      case True
      with line step.prems step.IH [OF line] show ?thesis
        by (simp add: selectProfileLoop_invalid)
    next
      case False
      with line step.prems show ?thesis by (simp add: selectProfileLoop_valid)
    qed
  qed
qed

lemma selectClusterLoop_errors:
  "fst (selectClusterLoop clusters buf s) = Some e \<Longrightarrow> e = ReadInputFailed EOF"
proof (induction buf s rule: read_loop_induct)
  case (step buf s)
  show ?case
  proof (cases buf "stdin s" rule: ReadString_cases)
    case (eof b i)
    with step.prems show ?thesis by (simp add: selectClusterLoop_eof)
  next
    case (line input b i)
    show ?thesis
    proof (cases "invalidChoice (Atoi (TrimSpace input)) (length clusters)")
      case True
      with line step.prems step.IH [OF line] show ?thesis
        by (simp add: selectClusterLoop_invalid)
    next
      case False
      with line step.prems show ?thesis by (simp add: selectClusterLoop_valid)
    qed
  qed
qed

lemma checkDepsLoop_errors:
  "fst (checkDepsLoop os deps s) = Some e \<Longrightarrow> \<exists>d \<in> set deps. e = DependencyNotFound d"
  by (induction deps arbitrary: s) (auto split: if_splits)

lemma CheckDependencies_errors:
  "CheckDependencies os s = (Some e, s') \<Longrightarrow>
   e = DependencyNotFound ''aws'' \<or> e = DependencyNotFound ''kubectl''"
  using checkDepsLoop_errors [of os "[''aws'', ''kubectl'']" "emit MsgCheckingDependencies s" e]
  by (simp add: CheckDependencies_def)

lemma GetAWSProfiles_errors:
  "GetAWSProfiles os s = (Inl e, s') \<Longrightarrow> e = ListProfilesFailed CommandFailed"
  by (auto simp: GetAWSProfiles_def Execute_def Let_def split: prod.splits option.splits)

lemma selectProfileLoop_errors':
  "selectProfileLoop profiles buf s = (Some e, s') \<Longrightarrow> e = ReadInputFailed EOF"
  using selectProfileLoop_errors [of profiles buf s e] by simp

lemma selectClusterLoop_errors':
  "selectClusterLoop clusters buf s = (Some e, s') \<Longrightarrow> e = ReadInputFailed EOF"
  using selectClusterLoop_errors [of clusters buf s e] by simp

lemma SelectProfile_errors:
  "SelectProfile os s = (Some e, s') \<Longrightarrow>
   e = ListProfilesFailed CommandFailed \<or> e = NoProfiles \<or> e = ReadInputFailed EOF"
  unfolding SelectProfile_def
  by (auto split: prod.splits sum.splits if_splits
      dest: GetAWSProfiles_errors selectProfileLoop_errors')

lemma CheckSSOSession_no_error: "CheckSSOSession os s = ((valid, Some err), s') \<Longrightarrow> False"
  using CheckSSOSession_result [of os s] by simp

lemma LoginSSO_errors: "LoginSSO os s = (Some e, s') \<Longrightarrow> e = SSOLoginFailed RunFailed"
  by (auto simp: LoginSSO_def Let_def split: prod.splits if_splits)

lemma ListEKSClusters_errors:
  "ListEKSClusters os s = (Inl e, s') \<Longrightarrow>
   e = ListClustersFailed CommandFailed \<or> (\<exists>j. e = ParseClustersFailed (JSONError j))"
  by (auto simp: ListEKSClusters_def Execute_def Let_def split: prod.splits option.splits sum.splits)

lemma ListEKSClusters_config:
  "ListEKSClusters os s = (r, s') \<Longrightarrow> config s' = config s"
  using ListEKSClusters_frame(1) [of os s] by (simp del: ListEKSClusters_frame)

lemma SelectCluster_errors:
  "SelectCluster os s = (Some e, s') \<Longrightarrow>
   e = ListClustersFailed CommandFailed \<or> (\<exists>j. e = ParseClustersFailed (JSONError j)) \<or>
   e = NoClusters (Region (config s)) (Profile (config s)) \<or> e = ReadInputFailed EOF"
  unfolding SelectCluster_def
  by (auto split: prod.splits sum.splits if_splits
      dest: ListEKSClusters_errors selectClusterLoop_errors' ListEKSClusters_config)

lemma UpdateKubeconfig_errors:
  "UpdateKubeconfig os s = (Some e, s') \<Longrightarrow> e = UpdateKubeconfigFailed RunFailed"
  by (auto simp: UpdateKubeconfig_def Let_def split: prod.splits if_splits)

lemma VerifyConnection_no_error: "VerifyConnection os s = (Some e, s') \<Longrightarrow> False"
  using VerifyConnection_ok [of os s] by simp

lemma Run_errors:
  "fst (Run os s) = Some e \<Longrightarrow>
   e = DependencyNotFound ''aws'' \<or> e = DependencyNotFound ''kubectl'' \<or>
   e = ListProfilesFailed CommandFailed \<or> e = NoProfiles \<or> e = ReadInputFailed EOF \<or>
   e = SSOLoginFailed RunFailed \<or>
   e = ListClustersFailed CommandFailed \<or> (\<exists>j. e = ParseClustersFailed (JSONError j)) \<or>
   (\<exists>r p. e = NoClusters r p) \<or> e = UpdateKubeconfigFailed RunFailed"
  unfolding Run_def
  by (auto split: prod.splits option.splits if_splits
      dest: CheckDependencies_errors SelectProfile_errors CheckSSOSession_no_error LoginSSO_errors
        SelectCluster_errors UpdateKubeconfig_errors VerifyConnection_no_error)

section \<open>What each step appends to the trace\<close>

lemma ShowSummary_trace [simp]: "trace (ShowSummary s) = trace s @ summary (config s)"
  by (simp add: ShowSummary_def summary_def)

lemma checkDepsLoop_trace:
  "\<exists>new. trace (snd (checkDepsLoop os deps s)) = trace s @ new \<and> list_all isPrint new"
proof (induction deps arbitrary: s)
  case Nil
  then show ?case by simp
next
  case (Cons d deps)
  show ?case
  proof (cases "lookPath os (procs s) d")
    case True
    from Cons [of "emit (MsgDepFound d) s"] True show ?thesis by auto
  next
    case False
    then show ?thesis by simp
  qed
qed

lemma CheckDependencies_spec:
  assumes "CheckDependencies os s = (r, s')"
  shows "config s' = config s \<and> stdin s' = stdin s \<and> procs s' = procs s \<and>
         (\<exists>new. trace s' = trace s @ new \<and> list_all isPrint new)"
proof -
  from assms have s': "s' = snd (CheckDependencies os s)" by simp
  from checkDepsLoop_trace [of os "[''aws'', ''kubectl'']" "emit MsgCheckingDependencies s"]
  show ?thesis unfolding s' by (auto simp: CheckDependencies_def)
qed

lemma profilesLoop_trace:
  "\<exists>new. trace (snd (profilesLoop os ls ps s)) = trace s @ new \<and> list_all profileEvent new"
proof (induction ls arbitrary: ps s)
  case Nil
  then show ?case by simp
next
  case (Cons l ls)
  show ?case
  proof (cases "TrimSpace l = []")
    case True
    with Cons show ?thesis by simp
  next
    case False
    let ?args = "[''configure'', ''get'', ''region'', ''--profile'', TrimSpace l]"
    let ?e = "Execute os ''aws'' ?args s"
    obtain new where
      "trace (snd (profilesLoop os ls
          (ps @ [\<lparr>Name = TrimSpace l,
                   ProfileRegion = (if fst (fst ?e) = [] then DefaultRegion (config (snd ?e))
                                    else fst (fst ?e))\<rparr>]) (snd ?e))) = trace (snd ?e) @ new"
      and "list_all profileEvent new"
      using Cons by blast
    with False show ?thesis by (auto simp: Let_def case_prod_beta)
  qed
qed

lemma GetAWSProfiles_spec:
  assumes "GetAWSProfiles os s = (r, s')"
  shows "config s' = config s \<and> stdin s' = stdin s \<and>
         (\<exists>new. trace s' = trace s @ new \<and> list_all profileEvent new)"
proof -
  from assms have s': "s' = snd (GetAWSProfiles os s)" by simp
  let ?e = "Execute os ''aws'' [''configure'', ''list-profiles''] s"
  from profilesLoop_trace [of os "Split (fst (fst ?e))" "[]" "snd ?e"]
  show ?thesis unfolding s'
    by (auto simp: GetAWSProfiles_def case_prod_beta split: option.splits)
qed

lemma valid_choice_index:
  "\<not> invalidChoice r n \<Longrightarrow> nat (the r - 1) < n \<and> r = Some (int (nat (the r - 1)) + 1)"
  by (cases r) (auto simp: invalidChoice_def)

lemma foldl_emit_frame [simp]:
  "config (foldl (\<lambda>st x. emit (f x) st) s xs) = config s"
  "stdin (foldl (\<lambda>st x. emit (f x) st) s xs) = stdin s"
  "procs (foldl (\<lambda>st x. emit (f x) st) s xs) = procs s"
  "trace (foldl (\<lambda>st x. emit (f x) st) s xs) = trace s @ map (\<lambda>x. Print (f x)) xs"
  by (induction xs arbitrary: s; simp)+

lemma foldl_emit_pair_frame [simp]:
  "config (foldl (\<lambda>st (i, x). emit (g i x) st) s xs) = config s"
  "stdin (foldl (\<lambda>st (i, x). emit (g i x) st) s xs) = stdin s"
  "procs (foldl (\<lambda>st (i, x). emit (g i x) st) s xs) = procs s"
  "trace (foldl (\<lambda>st (i, x). emit (g i x) st) s xs) =
     trace s @ map (\<lambda>(i, x). Print (g i x)) xs"
  by (induction xs arbitrary: s; simp add: case_prod_beta)+

lemma list_all_isPrint_map_pair [simp]: "list_all isPrint (map (\<lambda>(i, x). Print (g i x)) xs)"
  by (induction xs) auto

lemma list_all_isPrint_map [simp]: "list_all isPrint (map (\<lambda>x. Print (f x)) xs)"
  by (induction xs) auto

lemma selectProfileLoop_spec:
  assumes "selectProfileLoop profiles buf s = (r, s')"
  shows "procs s' = procs s \<and>
         (\<exists>new. trace s' = trace s @ new \<and> list_all isPrint new) \<and>
         (case r of
            Some e \<Rightarrow> e = ReadInputFailed EOF \<and> config s' = config s
          | None \<Rightarrow>
              (\<exists>i < length profiles. Profile (config s') = Name (profiles ! i) \<and>
                 Region (config s') = ProfileRegion (profiles ! i)) \<and>
              config s' = (config s)\<lparr>Profile := Profile (config s'),
                                      Region := Region (config s')\<rparr>)"
  using assms
proof (induction buf s rule: read_loop_induct)
  case (step buf s)
  show ?case
  proof (cases buf "stdin s" rule: ReadString_cases)
    case (eof b i)
    with step.prems show ?thesis by (auto simp: selectProfileLoop_eof)
  next
    case (line input b i)
    show ?thesis
    proof (cases "invalidChoice (Atoi (TrimSpace input)) (length profiles)")
      case True
      with line step.prems
      have "selectProfileLoop profiles b
              (emit (MsgInvalidSelection (length profiles))
                 ((emit (MsgSelectProfile (length profiles)) s)\<lparr>stdin := i\<rparr>)) = (r, s')"
        by (simp add: selectProfileLoop_invalid)
      from step.IH [OF line this] show ?thesis
        by (auto split: option.splits)
    next
      case False
      from valid_choice_index [OF False] False line step.prems show ?thesis
        by (auto simp: selectProfileLoop_valid)
    qed
  qed
qed

lemma selectClusterLoop_spec:
  assumes "selectClusterLoop clusters buf s = (r, s')"
  shows "procs s' = procs s \<and>
         (\<exists>new. trace s' = trace s @ new \<and> list_all isPrint new) \<and>
         (case r of
            Some e \<Rightarrow> e = ReadInputFailed EOF \<and> config s' = config s
          | None \<Rightarrow>
              (\<exists>i < length clusters. Cluster (config s') = clusters ! i) \<and>
              config s' = (config s)\<lparr>Cluster := Cluster (config s')\<rparr>)"
  using assms
proof (induction buf s rule: read_loop_induct)
  case (step buf s)
  show ?case
  proof (cases buf "stdin s" rule: ReadString_cases)
    case (eof b i)
    with step.prems show ?thesis by (auto simp: selectClusterLoop_eof)
  next
    case (line input b i)
    show ?thesis
    proof (cases "invalidChoice (Atoi (TrimSpace input)) (length clusters)")
      case True
      with line step.prems
      have "selectClusterLoop clusters b
              (emit (MsgInvalidSelection (length clusters))
                 ((emit (MsgSelectCluster (length clusters)) s)\<lparr>stdin := i\<rparr>)) = (r, s')"
        by (simp add: selectClusterLoop_invalid)
      from step.IH [OF line this] show ?thesis
        by (auto split: option.splits)
    next
      case False
      from valid_choice_index [OF False] False line step.prems show ?thesis
        by (auto simp: selectClusterLoop_valid)
    qed
  qed
qed

lemma SelectProfile_spec:
  assumes "SelectProfile os s = (r, s')"
  shows "(\<exists>new. trace s' = trace s @ new \<and> list_all profileEvent new) \<and>
         (case r of
            Some e \<Rightarrow> config s' = config s
          | None \<Rightarrow>
              config s' = (config s)\<lparr>Profile := Profile (config s'), Region := Region (config s')\<rparr>)"
proof (cases "GetAWSProfiles os s")
  case (Pair g s1)
  from GetAWSProfiles_spec [OF Pair] obtain new where
    c1: "config s1 = config s" and t1: "trace s1 = trace s @ new" and n: "list_all profileEvent new"
    by blast
  have pe: "list_all profileEvent xs" if "list_all isPrint xs" for xs
    using that by (induction xs) (auto elim: isPrint.elims)
  show ?thesis
  proof (cases g)
    case (Inl e)
    with assms Pair c1 t1 n show ?thesis by (auto simp: SelectProfile_def)
  next
    case (Inr profiles)
    consider "length profiles = 0" | "length profiles = 1" | "1 < length profiles" by linarith
    then show ?thesis
    proof cases
      case 1
      with assms Pair Inr c1 t1 n show ?thesis by (auto simp: SelectProfile_def)
    next
      case 2
      with assms Pair Inr c1 t1 n show ?thesis
        by (auto simp: SelectProfile_def Let_def)
    next
      case 3
      let ?s2 = "foldl (\<lambda>st (i, profile). emit (MsgProfileItem (i + 1) (Name profile) (ProfileRegion profile)) st)
                 (emit MsgAvailableProfiles s1) (enumerate 0 profiles)"
      from 3 have "profiles \<noteq> []" "length profiles \<noteq> 1" by auto
      with assms Pair Inr have l: "selectProfileLoop profiles [] ?s2 = (r, s')"
        by (simp add: SelectProfile_def)
      have t2: "\<exists>new2. trace ?s2 = trace s1 @ new2 \<and> list_all isPrint new2"
        and c2: "config ?s2 = config s1"
        by simp_all
      from selectProfileLoop_spec [OF l] t2 c2 c1 t1 n show ?thesis
        by (auto split: option.splits intro!: pe)
    qed
  qed
qed

lemma CheckSSOSession_spec:
  assumes "CheckSSOSession os s = ((valid, err), s')"
  shows "err = None \<and> config s' = config s \<and> stdin s' = stdin s \<and>
         trace s' = trace s @
           [ExecOutput ''aws'' [''sts'', ''get-caller-identity'', ''--profile'', Profile (config s)]
              valid]"
proof -
  from assms have "s' = snd (CheckSSOSession os s)" "(valid, err) = fst (CheckSSOSession os s)"
    by simp_all
  then show ?thesis
    by (simp add: CheckSSOSession_def case_prod_beta Execute_result split: option.splits)
qed

lemma LoginSSO_spec:
  assumes "LoginSSO os s = (r, s')"
  shows "config s' = config s \<and>
         (if SkipSSO (config s) then r = None \<and> s' = s
          else \<exists>ok. trace s' = trace s @
                  [Print MsgLoggingIn,
                   ExecRun ''aws'' [''sso'', ''login'', ''--profile'', Profile (config s)] ok] @
                  (if ok then [Print MsgLoginSuccessful] else []) \<and>
                (r = None) = ok)"
  using assms by (auto simp: LoginSSO_def Let_def split: prod.splits if_splits)

lemma ListEKSClusters_spec:
  assumes "ListEKSClusters os s = (r, s')"
  shows "config s' = config s \<and> stdin s' = stdin s \<and>
         (\<exists>new. trace s' = trace s @ new \<and> list_all clusterEvent new)"
proof -
  from assms have "s' = snd (ListEKSClusters os s)" by simp
  then show ?thesis
    by (simp add: ListEKSClusters_def case_prod_beta split: option.splits sum.splits)
qed

lemma SelectCluster_spec:
  assumes "SelectCluster os s = (r, s')"
  shows "(\<exists>new. trace s' = trace s @ new \<and> list_all clusterEvent new) \<and>
         (case r of
            Some e \<Rightarrow> config s' = config s
          | None \<Rightarrow> config s' = (config s)\<lparr>Cluster := Cluster (config s')\<rparr>)"
proof (cases "ListEKSClusters os s")
  case (Pair g s1)
  from ListEKSClusters_spec [OF Pair] obtain new where
    c1: "config s1 = config s" and t1: "trace s1 = trace s @ new" and n: "list_all clusterEvent new"
    by blast
  have pe: "list_all clusterEvent xs" if "list_all isPrint xs" for xs
    using that by (induction xs) (auto elim: isPrint.elims)
  show ?thesis
  proof (cases g)
    case (Inl e)
    with assms Pair c1 t1 n show ?thesis by (auto simp: SelectCluster_def)
  next
    case (Inr clusters)
    consider "length clusters = 0" | "length clusters = 1" | "1 < length clusters" by linarith
    then show ?thesis
    proof cases
      case 1
      with assms Pair Inr c1 t1 n show ?thesis by (auto simp: SelectCluster_def)
    next
      case 2
      with assms Pair Inr c1 t1 n show ?thesis
        by (auto simp: SelectCluster_def Let_def)
    next
      case 3
      let ?s2 = "foldl (\<lambda>st (i, cluster). emit (MsgClusterItem (i + 1) cluster) st)
                 (emit (MsgAvailableClusters (Region (config s1))) s1) (enumerate 0 clusters)"
      from 3 have "clusters \<noteq> []" "length clusters \<noteq> 1" by auto
      with assms Pair Inr have l: "selectClusterLoop clusters [] ?s2 = (r, s')"
        by (simp add: SelectCluster_def)
      have t2: "\<exists>new2. trace ?s2 = trace s1 @ new2 \<and> list_all isPrint new2"
        and c2: "config ?s2 = config s1"
        by simp_all
      from selectClusterLoop_spec [OF l] t2 c2 c1 t1 n show ?thesis
        by (auto split: option.splits intro!: pe)
    qed
  qed
qed

lemma UpdateKubeconfig_spec:
  assumes "UpdateKubeconfig os s = (r, s')"
  shows "config s' = config s \<and> stdin s' = stdin s \<and>
         (\<exists>ok. trace s' = trace s @
            [Print (MsgUpdatingKubeconfig (Cluster (config s))),
             ExecRun ''aws''
               [''eks'', ''update-kubeconfig'', ''--region'', Region (config s),
                ''--name'', Cluster (config s), ''--profile'', Profile (config s)] ok] @
            (if ok then [Print MsgKubeconfigUpdated] else []) \<and>
            (r = None) = ok)"
  using assms by (auto simp: UpdateKubeconfig_def Let_def split: prod.splits if_splits)


lemma verify_tail:
  "(case VerifyConnection os s6 of
      (Some err, s7) \<Rightarrow> (Some err, s7)
    | (None, s7) \<Rightarrow> (None, ShowSummary s7)) =
   (None, ShowSummary (snd (VerifyConnection os s6)))"
  using VerifyConnection_ok [of os s6] by (cases "VerifyConnection os s6") auto

lemma Run_steps:
  "Run os s =
     (case CheckDependencies os s of
        (Some err, s1) \<Rightarrow> (Some err, s1)
      | (None, s1) \<Rightarrow>
     (case profileStep os s1 of
        (Some err, s2) \<Rightarrow> (Some err, s2)
      | (None, s2) \<Rightarrow>
     (case sessionStep os s2 of
        (Some err, s4) \<Rightarrow> (Some err, s4)
      | (None, s4) \<Rightarrow>
     (case clusterStep os s4 of
        (Some err, s5) \<Rightarrow> (Some err, s5)
      | (None, s5) \<Rightarrow>
     (case UpdateKubeconfig os s5 of
        (Some err, s6) \<Rightarrow> (Some err, s6)
      | (None, s6) \<Rightarrow> (None, ShowSummary (snd (VerifyConnection os s6))))))))"
  by (simp only: Run_def profileStep_def sessionStep_def clusterStep_def verify_tail)

lemma Run_cases [consumes 1, case_names deps profile session cluster update complete]:
  assumes "Run os s = (r, s')"
  obtains
    (deps) e where "CheckDependencies os s = (Some e, s')" "r = Some e"
  | (profile) e s1 where "CheckDependencies os s = (None, s1)"
      "profileStep os s1 = (Some e, s')" "r = Some e"
  | (session) e s1 s2 where "CheckDependencies os s = (None, s1)"
      "profileStep os s1 = (None, s2)" "sessionStep os s2 = (Some e, s')" "r = Some e"
  | (cluster) e s1 s2 s4 where "CheckDependencies os s = (None, s1)"
      "profileStep os s1 = (None, s2)" "sessionStep os s2 = (None, s4)"
      "clusterStep os s4 = (Some e, s')" "r = Some e"
  | (update) e s1 s2 s4 s5 where "CheckDependencies os s = (None, s1)"
      "profileStep os s1 = (None, s2)" "sessionStep os s2 = (None, s4)"
      "clusterStep os s4 = (None, s5)" "UpdateKubeconfig os s5 = (Some e, s')" "r = Some e"
  | (complete) s1 s2 s4 s5 s6 s7 where "CheckDependencies os s = (None, s1)"
      "profileStep os s1 = (None, s2)" "sessionStep os s2 = (None, s4)"
      "clusterStep os s4 = (None, s5)" "UpdateKubeconfig os s5 = (None, s6)"
      "VerifyConnection os s6 = (None, s7)" "s' = ShowSummary s7" "r = None"
proof (cases "CheckDependencies os s")
  case p1: (Pair r1 s1)
  show ?thesis
  proof (cases r1)
    case (Some e)
    with p1 assms deps show ?thesis by (auto simp: Run_steps)
  next
    case None
    note n1 = p1 [unfolded None]
    show ?thesis
    proof (cases "profileStep os s1")
      case p2: (Pair r2 s2)
      show ?thesis
      proof (cases r2)
        case (Some e)
        with n1 p2 assms profile show ?thesis by (auto simp: Run_steps)
      next
        case None
        note n2 = p2 [unfolded None]
        show ?thesis
        proof (cases "sessionStep os s2")
          case p3: (Pair r3 s4)
          show ?thesis
          proof (cases r3)
            case (Some e)
            with n1 n2 p3 assms session show ?thesis by (auto simp: Run_steps)
          next
            case None
            note n3 = p3 [unfolded None]
            show ?thesis
            proof (cases "clusterStep os s4")
              case p4: (Pair r4 s5)
              show ?thesis
              proof (cases r4)
                case (Some e)
                with n1 n2 n3 p4 assms cluster show ?thesis by (auto simp: Run_steps)
              next
                case None
                note n4 = p4 [unfolded None]
                show ?thesis
                proof (cases "UpdateKubeconfig os s5")
                  case p5: (Pair r5 s6)
                  show ?thesis
                  proof (cases r5)
                    case (Some e)
                    with n1 n2 n3 n4 p5 assms update show ?thesis by (auto simp: Run_steps)
                  next
                    case None
                    note n5 = p5 [unfolded None]
                    have v: "VerifyConnection os s6 = (None, snd (VerifyConnection os s6))"
                      by (simp add: prod_eq_iff)
                    from n1 n2 n3 n4 n5 assms have "s' = ShowSummary (snd (VerifyConnection os s6))"
                      and "r = None"
                      by (simp_all add: Run_steps)
                    with n1 n2 n3 n4 n5 v show ?thesis by (intro complete) auto
                  qed
                qed
              qed
            qed
          qed
        qed
      qed
    qed
  qed
qed

lemma profileStep_spec:
  assumes "profileStep os s = (r, s')"
  shows "(\<exists>new. trace s' = trace s @ new \<and> list_all profileEvent new) \<and>
         config s' = (config s)\<lparr>Profile := Profile (config s'), Region := Region (config s')\<rparr> \<and>
         (Profile (config s) \<noteq> [] \<longrightarrow> s' = s)"
proof (cases "Profile (config s) = []")
  case True
  with assms have "SelectProfile os s = (r, s')" by (simp add: profileStep_def)
  from SelectProfile_spec [OF this] True show ?thesis
    by (cases r) auto
next
  case False
  with assms show ?thesis by (simp add: profileStep_def)
qed

lemma clusterStep_spec:
  assumes "clusterStep os s = (r, s')"
  shows "(\<exists>new. trace s' = trace s @ new \<and> list_all clusterEvent new) \<and>
         config s' = (config s)\<lparr>Cluster := Cluster (config s')\<rparr> \<and>
         (Cluster (config s) \<noteq> [] \<longrightarrow> s' = s)"
proof (cases "Cluster (config s) = []")
  case True
  with assms have "SelectCluster os s = (r, s')" by (simp add: clusterStep_def)
  from SelectCluster_spec [OF this] True show ?thesis
    by (cases r) auto
next
  case False
  with assms show ?thesis by (simp add: clusterStep_def)
qed

lemma sessionStep_spec:
  assumes "sessionStep os s = (r, s')"
  shows "config s' = config s \<and>
         (\<exists>valid ok. trace s' = trace s @ sessionTrace (config s) valid ok \<and>
            (r = None) = (valid \<or> SkipSSO (config s) \<or> ok))"
proof (cases "CheckSSOSession os s")
  case (Pair ve s3)
  obtain valid err where ve: "ve = (valid, err)" by (cases ve)
  from CheckSSOSession_spec [OF Pair [unfolded ve]]
  have e: "err = None" and c3: "config s3 = config s"
    and t3: "trace s3 = trace s @
      [ExecOutput ''aws'' [''sts'', ''get-caller-identity'', ''--profile'', Profile (config s)] valid]"
    by simp_all
  show ?thesis
  proof (cases valid)
    case True
    with assms Pair ve e c3 t3 show ?thesis
      by (auto simp: sessionStep_def sessionTrace_def intro!: exI [of _ True])
  next
    case False
    with assms Pair ve e have l: "LoginSSO os s3 = (r, s')" by (simp add: sessionStep_def)
    from LoginSSO_spec [OF l] c3 t3 False show ?thesis
      by (auto simp: sessionTrace_def split: if_splits intro!: exI [of _ False])
  qed
qed

lemma kubectl_not_event [simp]:
  "\<not> profileEvent (ExecOutput ''kubectl'' args ok)"
  "\<not> clusterEvent (ExecOutput ''kubectl'' args ok)"
  by (cases "ExecOutput ''kubectl'' args ok" rule: profileEvent.cases; simp)
    (cases "ExecOutput ''kubectl'' args ok" rule: clusterEvent.cases; simp)

lemma kubectl_not_in:
  "list_all isPrint new \<Longrightarrow> ExecOutput ''kubectl'' args ok \<notin> set new"
  "list_all profileEvent new \<Longrightarrow> ExecOutput ''kubectl'' args ok \<notin> set new"
  "list_all clusterEvent new \<Longrightarrow> ExecOutput ''kubectl'' args ok \<notin> set new"
  "ExecOutput ''kubectl'' args ok \<notin> set (sessionTrace c valid ok')"
  by (auto simp: list_all_iff sessionTrace_def)

lemma Run_kubectl:
  assumes run: "Run os s = (r, s')"
    and ev: "ExecOutput ''kubectl'' args ok \<in> set (trace s')"
    and old: "ExecOutput ''kubectl'' args ok \<notin> set (trace s)"
  shows "r = None \<and> (\<exists>pre. trace s' = pre @ summary (config s'))"
  using run
proof (cases rule: Run_cases)
  case (deps e)
  from CheckDependencies_spec [OF deps(1)] ev old show ?thesis
    by (auto dest: kubectl_not_in(1))
next
  case (profile e s1)
  from CheckDependencies_spec [OF profile(1)] profileStep_spec [OF profile(2)] ev old
  show ?thesis
    by (auto dest: kubectl_not_in(1-3))
next
  case (session e s1 s2)
  from CheckDependencies_spec [OF session(1)] profileStep_spec [OF session(2)]
    sessionStep_spec [OF session(3)] ev old
  show ?thesis
    using kubectl_not_in(4) by (auto dest: kubectl_not_in(1-3))
next
  case (cluster e s1 s2 s4)
  from CheckDependencies_spec [OF cluster(1)] profileStep_spec [OF cluster(2)]
    sessionStep_spec [OF cluster(3)] clusterStep_spec [OF cluster(4)] ev old
  show ?thesis
    using kubectl_not_in(4) by (auto dest: kubectl_not_in(1-3))
next
  case (update e s1 s2 s4 s5)
  from CheckDependencies_spec [OF update(1)] profileStep_spec [OF update(2)]
    sessionStep_spec [OF update(3)] clusterStep_spec [OF update(4)]
    UpdateKubeconfig_spec [OF update(5)] ev old
  show ?thesis
    using kubectl_not_in(4) by (auto dest: kubectl_not_in(1-3) split: if_splits)
next
  case (complete s1 s2 s4 s5 s6 s7)
  then show ?thesis by simp
qed

lemma profileStep_fields:
  assumes "profileStep os s = (r, s')"
  shows "Cluster (config s') = Cluster (config s)" "SkipSSO (config s') = SkipSSO (config s)"
    "Interactive (config s') = Interactive (config s)"
    "DefaultRegion (config s') = DefaultRegion (config s)"
proof -
  from profileStep_spec [OF assms]
  have e: "config s' = (config s)\<lparr>Profile := Profile (config s'), Region := Region (config s')\<rparr>"
    by simp
  show "Cluster (config s') = Cluster (config s)" by (subst e) simp
  show "SkipSSO (config s') = SkipSSO (config s)" by (subst e) simp
  show "Interactive (config s') = Interactive (config s)" by (subst e) simp
  show "DefaultRegion (config s') = DefaultRegion (config s)" by (subst e) simp
qed


lemma sessionPart_simps [simp]:
  "sessionPart [] = []"
  "sessionPart (a @ b) = sessionPart a @ sessionPart b"
  "sessionPart (summary c) = []"
  "sessionPart (sessionTrace c valid ok) = sessionEvents c valid ok"
  by (simp_all add: sessionPart_def summary_def sessionTrace_def sessionEvents_def)

lemma sessionPart_quiet:
  "list_all isPrint new \<Longrightarrow> sessionPart new = []"
  "list_all profileEvent new \<Longrightarrow> sessionPart new = []"
  "list_all clusterEvent new \<Longrightarrow> sessionPart new = []"
proof -
  have p: "\<not> isLogin e \<and> \<not> isSessionCheck e" if "isPrint e" for e
    using that by (cases e) auto
  have q: "\<not> isLogin e \<and> \<not> isSessionCheck e" if "profileEvent e" for e
    using that by (cases e rule: profileEvent.cases) (auto elim: isSessionCheck.elims)
  have c: "\<not> isLogin e \<and> \<not> isSessionCheck e" if "clusterEvent e" for e
    using that by (cases e rule: clusterEvent.cases) (auto elim: isSessionCheck.elims)
  show "list_all isPrint new \<Longrightarrow> sessionPart new = []"
    using p by (auto simp: sessionPart_def list_all_iff filter_empty_conv)
  show "list_all profileEvent new \<Longrightarrow> sessionPart new = []"
    using q by (auto simp: sessionPart_def list_all_iff filter_empty_conv)
  show "list_all clusterEvent new \<Longrightarrow> sessionPart new = []"
    using c by (auto simp: sessionPart_def list_all_iff filter_empty_conv)
qed

lemma CheckDependencies_session:
  assumes "CheckDependencies os s = (r, s')"
  shows "sessionPart (trace s') = sessionPart (trace s)"
proof -
  from CheckDependencies_spec [OF assms] obtain new where
    "trace s' = trace s @ new" "list_all isPrint new" by blast
  then show ?thesis by (simp add: sessionPart_quiet)
qed

lemma profileStep_session:
  assumes "profileStep os s = (r, s')"
  shows "sessionPart (trace s') = sessionPart (trace s)"
proof -
  from profileStep_spec [OF assms] obtain new where
    "trace s' = trace s @ new" "list_all profileEvent new" by blast
  then show ?thesis by (simp add: sessionPart_quiet)
qed

lemma sessionStep_session:
  assumes "sessionStep os s = (r, s')"
  shows "\<exists>valid ok. sessionPart (trace s') = sessionPart (trace s) @ sessionEvents (config s) valid ok"
proof -
  from sessionStep_spec [OF assms] obtain valid ok where
    "trace s' = trace s @ sessionTrace (config s) valid ok" by blast
  then have "sessionPart (trace s') = sessionPart (trace s) @ sessionEvents (config s) valid ok"
    by simp
  then show ?thesis by blast
qed

lemma clusterStep_session:
  assumes "clusterStep os s = (r, s')"
  shows "sessionPart (trace s') = sessionPart (trace s)"
proof -
  from clusterStep_spec [OF assms] obtain new where
    "trace s' = trace s @ new" "list_all clusterEvent new" by blast
  then show ?thesis by (simp add: sessionPart_quiet)
qed

lemma UpdateKubeconfig_session:
  assumes "UpdateKubeconfig os s = (r, s')"
  shows "sessionPart (trace s') = sessionPart (trace s)"
proof -
  from UpdateKubeconfig_spec [OF assms] obtain ok where
    "trace s' = trace s @
            [Print (MsgUpdatingKubeconfig (Cluster (config s))),
             ExecRun ''aws''
               [''eks'', ''update-kubeconfig'', ''--region'', Region (config s),
                ''--name'', Cluster (config s), ''--profile'', Profile (config s)] ok] @
            (if ok then [Print MsgKubeconfigUpdated] else [])" by blast
  then show ?thesis by (simp add: sessionPart_def)
qed

lemma VerifyConnection_session:
  assumes "VerifyConnection os s = (r, s')"
  shows "sessionPart (trace s') = sessionPart (trace s)"
proof -
  from assms have "s' = snd (VerifyConnection os s)" by simp
  then show ?thesis
    by (simp add: VerifyConnection_def case_prod_beta sessionPart_def split: option.splits)
qed

lemma Run_session_events:
  assumes run: "Run os s = (r, s')"
  shows "sessionPart (trace s') = sessionPart (trace s) \<or>
         (\<exists>P valid ok. sessionPart (trace s') =
            sessionPart (trace s) @ sessionEvents ((config s)\<lparr>Profile := P\<rparr>) valid ok)"
proof -
  have ev: "sessionEvents (config s2) valid ok =
            sessionEvents ((config s)\<lparr>Profile := Profile (config s2)\<rparr>) valid ok"
    if "CheckDependencies os s = (None, s1)" "profileStep os s1 = (None, s2)"
    for s1 s2 valid ok
    using CheckDependencies_spec [OF that(1)] profileStep_fields(2) [OF that(2)]
    by (simp add: sessionEvents_def)
  from run show ?thesis
  proof (cases rule: Run_cases)
    case (deps e)
    then show ?thesis by (simp add: CheckDependencies_session)
  next
    case (profile e s1)
    then show ?thesis by (simp add: CheckDependencies_session profileStep_session)
  next
    case (session e s1 s2)
    from sessionStep_session [OF session(3)] obtain valid ok where
      "sessionPart (trace s') = sessionPart (trace s2) @ sessionEvents (config s2) valid ok"
      by blast
    with ev [OF session(1,2)] session
    have "sessionPart (trace s') = sessionPart (trace s) @
            sessionEvents ((config s)\<lparr>Profile := Profile (config s2)\<rparr>) valid ok"
      by (simp add: CheckDependencies_session profileStep_session)
    then show ?thesis by blast
  next
    case (cluster e s1 s2 s4)
    from sessionStep_session [OF cluster(3)] obtain valid ok where
      "sessionPart (trace s4) = sessionPart (trace s2) @ sessionEvents (config s2) valid ok"
      by blast
    with ev [OF cluster(1,2)] cluster
    have "sessionPart (trace s') = sessionPart (trace s) @
            sessionEvents ((config s)\<lparr>Profile := Profile (config s2)\<rparr>) valid ok"
      by (simp add: CheckDependencies_session profileStep_session clusterStep_session)
    then show ?thesis by blast
  next
    case (update e s1 s2 s4 s5)
    from sessionStep_session [OF update(3)] obtain valid ok where
      "sessionPart (trace s4) = sessionPart (trace s2) @ sessionEvents (config s2) valid ok"
      by blast
    with ev [OF update(1,2)] update
    have "sessionPart (trace s') = sessionPart (trace s) @
            sessionEvents ((config s)\<lparr>Profile := Profile (config s2)\<rparr>) valid ok"
      by (simp add: CheckDependencies_session profileStep_session clusterStep_session
          UpdateKubeconfig_session)
    then show ?thesis by blast
  next
    case (complete s1 s2 s4 s5 s6 s7)
    from sessionStep_session [OF complete(3)] obtain valid ok where
      "sessionPart (trace s4) = sessionPart (trace s2) @ sessionEvents (config s2) valid ok"
      by blast
    with ev [OF complete(1,2)] complete
    have "sessionPart (trace s') = sessionPart (trace s) @
            sessionEvents ((config s)\<lparr>Profile := Profile (config s2)\<rparr>) valid ok"
      by (simp add: CheckDependencies_session profileStep_session clusterStep_session
          UpdateKubeconfig_session VerifyConnection_session)
    then show ?thesis by blast
  qed
qed

lemma login_in_sessionPart: "list_ex isLogin t = list_ex isLogin (sessionPart t)"
  by (auto simp: sessionPart_def list_ex_iff)

lemma check_in_sessionPart:
  "ExecOutput ''aws'' [''sts'', ''get-caller-identity'', ''--profile'', P] v \<in> set t \<longleftrightarrow>
   ExecOutput ''aws'' [''sts'', ''get-caller-identity'', ''--profile'', P] v \<in> set (sessionPart t)"
  by (auto simp: sessionPart_def)

section \<open>The interactive flag is never read\<close>

lemma setInteractive_simps [simp]:
  "procs (setInteractive b s) = procs s"
  "stdin (setInteractive b s) = stdin s"
  "trace (setInteractive b s) = trace s"
  "Profile (config (setInteractive b s)) = Profile (config s)"
  "Region (config (setInteractive b s)) = Region (config s)"
  "Cluster (config (setInteractive b s)) = Cluster (config s)"
  "SkipSSO (config (setInteractive b s)) = SkipSSO (config s)"
  "DefaultRegion (config (setInteractive b s)) = DefaultRegion (config s)"
  "Interactive (config (setInteractive b s)) = b"
  by (simp_all add: setInteractive_def)

lemma emit_setInteractive [simp]: "emit m (setInteractive b s) = setInteractive b (emit m s)"
  by (simp add: emit_def setInteractive_def)

lemma stdin_update_setInteractive [simp]:
  "(setInteractive b s)\<lparr>stdin := i\<rparr> = setInteractive b (s\<lparr>stdin := i\<rparr>)"
  by (simp add: setInteractive_def)

lemma Execute_setInteractive [simp]:
  "Execute os c args (setInteractive b s) = apsnd (setInteractive b) (Execute os c args s)"
  by (simp add: Execute_def Let_def case_prod_beta setInteractive_def split: option.splits)

lemma checkDepsLoop_setInteractive [simp]:
  "checkDepsLoop os deps (setInteractive b s) = apsnd (setInteractive b) (checkDepsLoop os deps s)"
  by (induction deps arbitrary: s) simp_all

lemma CheckDependencies_setInteractive [simp]:
  "CheckDependencies os (setInteractive b s) = apsnd (setInteractive b) (CheckDependencies os s)"
  by (simp add: CheckDependencies_def)

lemma profilesLoop_setInteractive [simp]:
  "profilesLoop os ls ps (setInteractive b s) = apsnd (setInteractive b) (profilesLoop os ls ps s)"
  by (induction ls arbitrary: ps s) (simp_all add: Let_def case_prod_beta)

lemma GetAWSProfiles_setInteractive [simp]:
  "GetAWSProfiles os (setInteractive b s) = apsnd (setInteractive b) (GetAWSProfiles os s)"
  by (simp add: GetAWSProfiles_def case_prod_beta split: option.splits)


lemma config_update_setInteractive:
  "(setInteractive b s)\<lparr>stdin := i, config := (config (setInteractive b s))\<lparr>Profile := x, Region := y\<rparr>\<rparr> =
   setInteractive b (s\<lparr>stdin := i, config := (config s)\<lparr>Profile := x, Region := y\<rparr>\<rparr>)"
  "(setInteractive b s)\<lparr>stdin := i, config := (config (setInteractive b s))\<lparr>Cluster := z\<rparr>\<rparr> =
   setInteractive b (s\<lparr>stdin := i, config := (config s)\<lparr>Cluster := z\<rparr>\<rparr>)"
  "(setInteractive b s)\<lparr>config := (config (setInteractive b s))\<lparr>Profile := x, Region := y\<rparr>\<rparr> =
   setInteractive b (s\<lparr>config := (config s)\<lparr>Profile := x, Region := y\<rparr>\<rparr>)"
  "(setInteractive b s)\<lparr>config := (config (setInteractive b s))\<lparr>Cluster := z\<rparr>\<rparr> =
   setInteractive b (s\<lparr>config := (config s)\<lparr>Cluster := z\<rparr>\<rparr>)"
  by (simp_all add: setInteractive_def)

lemma selectProfileLoop_setInteractive [simp]:
  "selectProfileLoop profiles buf (setInteractive b s) =
   apsnd (setInteractive b) (selectProfileLoop profiles buf s)"
proof (induction buf s rule: read_loop_induct)
  case (step buf s)
  show ?case
  proof (cases buf "stdin s" rule: ReadString_cases)
    case (eof b' i)
    then show ?thesis by (simp add: selectProfileLoop_eof)
  next
    case (line input b' i)
    show ?thesis
    proof (cases "invalidChoice (Atoi (TrimSpace input)) (length profiles)")
      case True
      with line step.IH [OF line] show ?thesis
        by (simp add: selectProfileLoop_invalid)
    next
      case False
      with line show ?thesis
        by (simp add: selectProfileLoop_valid config_update_setInteractive)
    qed
  qed
qed

lemma selectClusterLoop_setInteractive [simp]:
  "selectClusterLoop clusters buf (setInteractive b s) =
   apsnd (setInteractive b) (selectClusterLoop clusters buf s)"
proof (induction buf s rule: read_loop_induct)
  case (step buf s)
  show ?case
  proof (cases buf "stdin s" rule: ReadString_cases)
    case (eof b' i)
    then show ?thesis by (simp add: selectClusterLoop_eof)
  next
    case (line input b' i)
    show ?thesis
    proof (cases "invalidChoice (Atoi (TrimSpace input)) (length clusters)")
      case True
      with line step.IH [OF line] show ?thesis
        by (simp add: selectClusterLoop_invalid)
    next
      case False
      with line show ?thesis
        by (simp add: selectClusterLoop_valid config_update_setInteractive)
    qed
  qed
qed

lemma foldl_emit_setInteractive [simp]:
  "foldl (\<lambda>st (i, x). emit (g i x) st) (setInteractive b s) xs =
   setInteractive b (foldl (\<lambda>st (i, x). emit (g i x) st) s xs)"
  by (induction xs arbitrary: s) (simp_all add: case_prod_beta)

lemma SelectProfile_setInteractive [simp]:
  "SelectProfile os (setInteractive b s) = apsnd (setInteractive b) (SelectProfile os s)"
  by (simp add: SelectProfile_def case_prod_beta Let_def config_update_setInteractive
      split: sum.splits)

lemma CheckSSOSession_setInteractive [simp]:
  "CheckSSOSession os (setInteractive b s) = apsnd (setInteractive b) (CheckSSOSession os s)"
  by (simp add: CheckSSOSession_def case_prod_beta)

lemma LoginSSO_setInteractive [simp]:
  "LoginSSO os (setInteractive b s) = apsnd (setInteractive b) (LoginSSO os s)"
  by (simp add: LoginSSO_def case_prod_beta Let_def setInteractive_def emit_def)

lemma ListEKSClusters_setInteractive [simp]:
  "ListEKSClusters os (setInteractive b s) = apsnd (setInteractive b) (ListEKSClusters os s)"
  by (simp add: ListEKSClusters_def case_prod_beta split: option.splits sum.splits)

lemma SelectCluster_setInteractive [simp]:
  "SelectCluster os (setInteractive b s) = apsnd (setInteractive b) (SelectCluster os s)"
  by (simp add: SelectCluster_def case_prod_beta Let_def config_update_setInteractive
      split: sum.splits)

lemma UpdateKubeconfig_setInteractive [simp]:
  "UpdateKubeconfig os (setInteractive b s) = apsnd (setInteractive b) (UpdateKubeconfig os s)"
  by (simp add: UpdateKubeconfig_def case_prod_beta Let_def setInteractive_def emit_def)

lemma VerifyConnection_setInteractive [simp]:
  "VerifyConnection os (setInteractive b s) = apsnd (setInteractive b) (VerifyConnection os s)"
  by (auto simp: VerifyConnection_def case_prod_beta split: option.splits)

lemma ShowSummary_setInteractive [simp]:
  "ShowSummary (setInteractive b s) = setInteractive b (ShowSummary s)"
  by (simp add: ShowSummary_def)


lemma Run_andThen:
  "Run os =
     andThen (CheckDependencies os) (andThen (profileStep os) (andThen (sessionStep os)
       (andThen (clusterStep os) (andThen (UpdateKubeconfig os)
         (\<lambda>s. (None, ShowSummary (snd (VerifyConnection os s))))))))"
  by (rule ext) (simp only: Run_steps andThen_def)

lemma andThen_commute:
  assumes "\<And>s. f (h s) = apsnd h (f s)" and "\<And>s. k (h s) = apsnd h (k s)"
  shows "andThen f k (h s) = apsnd h (andThen f k s)"
  by (simp add: andThen_def assms case_prod_beta split: option.splits)

lemma profileStep_setInteractive:
  "profileStep os (setInteractive b s) = apsnd (setInteractive b) (profileStep os s)"
  by (simp add: profileStep_def)

lemma sessionStep_setInteractive:
  "sessionStep os (setInteractive b s) = apsnd (setInteractive b) (sessionStep os s)"
  by (simp add: sessionStep_def case_prod_beta split: option.splits)

lemma clusterStep_setInteractive:
  "clusterStep os (setInteractive b s) = apsnd (setInteractive b) (clusterStep os s)"
  by (simp add: clusterStep_def)

lemma Run_setInteractive:
  "Run os (setInteractive b s) = apsnd (setInteractive b) (Run os s)"
  unfolding Run_andThen
  by (intro andThen_commute profileStep_setInteractive sessionStep_setInteractive
      clusterStep_setInteractive CheckDependencies_setInteractive UpdateKubeconfig_setInteractive)
    simp

lemma parseFlags_interactive:
  "parseFlags (f\<lparr>flagInteractive := a\<rparr>) c =
   (parseFlags f c)\<lparr>Interactive := (case a of None \<Rightarrow> Interactive c | Some v \<Rightarrow> v)\<rparr>"
  by (simp add: parseFlags_def)

section \<open>The configuration after a run\<close>







section \<open>The claims\<close>




text \<open>
  Claim C5. In every run, the \<open>aws sso login\<close> subprocess is spawned only when the session
  check \<open>aws sts get-caller-identity\<close> failed and the skip flag is unset: with the skip flag set
  no login is spawned, after a successful session check no login is spawned, and a run with
  a login has the skip flag unset and a failed session check in its trace.
\<close>

theorem login_only_after_failed_check:
  assumes "main os (RootCmd f) p ins = (code, s')"
  shows "(flagSkipSSO f = Some True \<longrightarrow> \<not> list_ex isLogin (trace s')) \<and>
         (ExecOutput ''aws'' [''sts'', ''get-caller-identity'', ''--profile'', P] True
            \<in> set (trace s') \<longrightarrow> \<not> list_ex isLogin (trace s')) \<and>
         (list_ex isLogin (trace s') \<longrightarrow>
            flagSkipSSO f \<noteq> Some True \<and>
            (\<exists>Q. ExecOutput ''aws'' [''sts'', ''get-caller-identity'', ''--profile'', Q] False
               \<in> set (trace s')))"
proof -
  let ?s0 = "\<lparr>config = parseFlags f (registerFlags NewEKSLoginApp), procs = p, stdin = ins,
               trace = []\<rparr>"
  obtain r s1 where run: "Run os ?s0 = (r, s1)" by (cases "Run os ?s0")
  have skip: "SkipSSO (config ?s0) = (flagSkipSSO f = Some True)"
    by (cases "flagSkipSSO f") (auto simp: parseFlags_def registerFlags_def NewEKSLoginApp_def)
  from assms run have t: "sessionPart (trace s') = sessionPart (trace s1)"
    by (cases r) (auto simp: main_def sessionPart_def)
  from Run_session_events [OF run]
  consider "sessionPart (trace s1) = []"
    | P' valid ok where "sessionPart (trace s1) =
        sessionEvents ((config ?s0)\<lparr>Profile := P'\<rparr>) valid ok"
    by auto
  then show ?thesis
  proof cases
    case 1
    with t show ?thesis
      by (simp add: login_in_sessionPart [of "trace s'"] check_in_sessionPart [of _ _ "trace s'"])
  next
    case 2
    with t skip show ?thesis
      by (auto simp: login_in_sessionPart [of "trace s'"] check_in_sessionPart [of _ _ "trace s'"]
          sessionEvents_def)
  qed
qed

theorem login_only_after_failed_check_witness:
  "list_ex isLogin (trace (snd (main bareOS (RootCmd flagsProfile) () []))) \<and>
   flagSkipSSO flagsProfile \<noteq> Some True \<and>
   (\<exists>Q. ExecOutput ''aws'' [''sts'', ''get-caller-identity'', ''--profile'', Q] False
      \<in> set (trace (snd (main bareOS (RootCmd flagsProfile) () [])))) \<and>
   flagSkipSSO flagsC1 = Some True \<and>
   \<not> list_ex isLogin (trace (snd (main bareOS (RootCmd flagsC1) () [])))"
proof -
  have a: "list_ex isLogin (trace (snd (main bareOS (RootCmd flagsProfile) () [])))"
    by code_simp
  have b: "flagSkipSSO flagsC1 = Some True" by code_simp
  from login_only_after_failed_check
    [of bareOS flagsProfile "()" "[]" _ _ "''a''", OF surjective_pairing] a
  have c: "flagSkipSSO flagsProfile \<noteq> Some True \<and>
    (\<exists>Q. ExecOutput ''aws'' [''sts'', ''get-caller-identity'', ''--profile'', Q] False
      \<in> set (trace (snd (main bareOS (RootCmd flagsProfile) () []))))"
    by blast
  from login_only_after_failed_check
    [of bareOS flagsC1 "()" "[]" _ _ "''a''", OF surjective_pairing] b
  have "\<not> list_ex isLogin (trace (snd (main bareOS (RootCmd flagsC1) () [])))" by blast
  with a b c show ?thesis by simp
qed

text \<open>
  Claim C6. CheckSSOSession never returns an error: its error result is always nil, its boolean
  result is true exactly when the \<open>aws sts get-caller-identity\<close> subprocess succeeded, and
  Run never returns the "failed to check SSO session" error.
\<close>

theorem CheckSSOSession_never_errors:
  "snd (fst (CheckSSOSession os s)) = None \<and>
   fst (fst (CheckSSOSession os s)) =
     (fst (cmdOutput os (procs s) ''aws''
             [''sts'', ''get-caller-identity'', ''--profile'', Profile (config s)]) \<noteq> None) \<and>
   fst (Run os s) \<noteq> Some (CheckSessionFailed e)"
proof -
  have "fst (Run os s) \<noteq> Some (CheckSessionFailed e)"
    using Run_errors [of os s "CheckSessionFailed e"] by auto
  then show ?thesis by (simp add: CheckSSOSession_result)
qed

text \<open>
  Claim C7. VerifyConnection always returns success. When the \<open>kubectl cluster-info\<close> call
  fails it prints the warning and nothing else; when it succeeds and the
  \<open>kubectl config current-context\<close> call fails, nothing is printed about that failure. A run
  in which \<open>kubectl cluster-info\<close> was invoked, whatever its outcome, returns no error, ends
  with the summary, and the process exits 0.
\<close>

theorem VerifyConnection_non_fatal:
  "fst (VerifyConnection os s) = None \<and>
   (fst (cmdOutput os (procs s) ''kubectl'' [''cluster-info'']) = None \<longrightarrow>
      trace (snd (VerifyConnection os s)) =
        trace s @ [Print MsgVerifying, ExecOutput ''kubectl'' [''cluster-info''] False,
                   Print MsgUnableToVerify]) \<and>
   (\<forall>info. cmdOutput os (procs s) ''kubectl'' [''cluster-info''] = (Some info, p') \<and>
      fst (cmdOutput os p' ''kubectl'' [''config'', ''current-context'']) = None \<longrightarrow>
      trace (snd (VerifyConnection os s)) =
        trace s @ [Print MsgVerifying, ExecOutput ''kubectl'' [''cluster-info''] True,
                   Print MsgConnected,
                   ExecOutput ''kubectl'' [''config'', ''current-context''] False,
                   Print (MsgClusterInfo (TrimSpace (TrimSpace info)))]) \<and>
   (main os (RootCmd f) p ins = (code, s') \<and>
      ExecOutput ''kubectl'' [''cluster-info''] ok \<in> set (trace s') \<longrightarrow>
      code = 0 \<and> (\<exists>pre. trace s' = pre @ summary (config s')))"
proof (intro conjI)
  show "fst (VerifyConnection os s) = None" by simp
next
  show "fst (cmdOutput os (procs s) ''kubectl'' [''cluster-info'']) = None \<longrightarrow>
      trace (snd (VerifyConnection os s)) =
        trace s @ [Print MsgVerifying, ExecOutput ''kubectl'' [''cluster-info''] False,
                   Print MsgUnableToVerify]"
    by (simp add: VerifyConnection_def case_prod_beta Execute_result split: option.splits)
next
  show "\<forall>info. cmdOutput os (procs s) ''kubectl'' [''cluster-info''] = (Some info, p') \<and>
      fst (cmdOutput os p' ''kubectl'' [''config'', ''current-context'']) = None \<longrightarrow>
      trace (snd (VerifyConnection os s)) =
        trace s @ [Print MsgVerifying, ExecOutput ''kubectl'' [''cluster-info''] True,
                   Print MsgConnected,
                   ExecOutput ''kubectl'' [''config'', ''current-context''] False,
                   Print (MsgClusterInfo (TrimSpace (TrimSpace info)))]"
    by (simp add: VerifyConnection_def case_prod_beta Execute_result split: option.splits)
next
  show "main os (RootCmd f) p ins = (code, s') \<and>
      ExecOutput ''kubectl'' [''cluster-info''] ok \<in> set (trace s') \<longrightarrow>
      code = 0 \<and> (\<exists>pre. trace s' = pre @ summary (config s'))"
  proof
    let ?s0 = "\<lparr>config = parseFlags f (registerFlags NewEKSLoginApp), procs = p, stdin = ins,
                 trace = []\<rparr>"
    assume a: "main os (RootCmd f) p ins = (code, s') \<and>
      ExecOutput ''kubectl'' [''cluster-info''] ok \<in> set (trace s')"
    obtain r s1 where run: "Run os ?s0 = (r, s1)" by (cases "Run os ?s0")
    have ev: "ExecOutput ''kubectl'' [''cluster-info''] ok \<in> set (trace s1)"
      using a run by (cases r) (auto simp: main_def)
    from Run_kubectl [OF run ev] have "r = None" and "\<exists>pre. trace s1 = pre @ summary (config s1)"
      by simp_all
    with a run show "code = 0 \<and> (\<exists>pre. trace s' = pre @ summary (config s'))"
      by (auto simp: main_def)
  qed
qed


theorem VerifyConnection_non_fatal_witness:
  "main bareOS (RootCmd flagsC1) () [] = (0, snd (main bareOS (RootCmd flagsC1) () [])) \<and>
   ExecOutput ''kubectl'' [''cluster-info''] False
     \<in> set (trace (snd (main bareOS (RootCmd flagsC1) () []))) \<and>
   (\<exists>pre. trace (snd (main bareOS (RootCmd flagsC1) () [])) =
      pre @ summary (config (snd (main bareOS (RootCmd flagsC1) () []))))"
proof -
  have ev: "ExecOutput ''kubectl'' [''cluster-info''] False
     \<in> set (trace (snd (main bareOS (RootCmd flagsC1) () [])))"
    by code_simp
  from VerifyConnection_non_fatal
    [of bareOS "snd (main bareOS (RootCmd flagsC1) () [])" "()" flagsC1 "()" "[]"
      "fst (main bareOS (RootCmd flagsC1) () [])" "snd (main bareOS (RootCmd flagsC1) () [])" False]
    ev
  show ?thesis by (auto simp: prod_eq_iff)
qed

text \<open>
  Claim C9. The interactive flag has no effect: two runs that differ only in the value given
  to (or the absence of) the \<open>--interactive\<close> flag have the same exit status, the same
  trace (every subprocess invoked with its outcome, and every message printed), leave the
  same environment and standard input, and resolve the same profile, region and cluster.
\<close>

theorem interactive_flag_ignored:
  "fst (main os (RootCmd (f\<lparr>flagInteractive := a\<rparr>)) p ins) =
     fst (main os (RootCmd (f\<lparr>flagInteractive := b\<rparr>)) p ins) \<and>
   trace (snd (main os (RootCmd (f\<lparr>flagInteractive := a\<rparr>)) p ins)) =
     trace (snd (main os (RootCmd (f\<lparr>flagInteractive := b\<rparr>)) p ins)) \<and>
   procs (snd (main os (RootCmd (f\<lparr>flagInteractive := a\<rparr>)) p ins)) =
     procs (snd (main os (RootCmd (f\<lparr>flagInteractive := b\<rparr>)) p ins)) \<and>
   stdin (snd (main os (RootCmd (f\<lparr>flagInteractive := a\<rparr>)) p ins)) =
     stdin (snd (main os (RootCmd (f\<lparr>flagInteractive := b\<rparr>)) p ins)) \<and>
   Profile (config (snd (main os (RootCmd (f\<lparr>flagInteractive := a\<rparr>)) p ins))) =
     Profile (config (snd (main os (RootCmd (f\<lparr>flagInteractive := b\<rparr>)) p ins))) \<and>
   Region (config (snd (main os (RootCmd (f\<lparr>flagInteractive := a\<rparr>)) p ins))) =
     Region (config (snd (main os (RootCmd (f\<lparr>flagInteractive := b\<rparr>)) p ins))) \<and>
   Cluster (config (snd (main os (RootCmd (f\<lparr>flagInteractive := a\<rparr>)) p ins))) =
     Cluster (config (snd (main os (RootCmd (f\<lparr>flagInteractive := b\<rparr>)) p ins)))"
proof -
  let ?c = "registerFlags NewEKSLoginApp"
  let ?s = "\<lparr>config = parseFlags f ?c, procs = p, stdin = ins, trace = []\<rparr>"
  have m: "main os (RootCmd (f\<lparr>flagInteractive := x\<rparr>)) p ins =
           (case Run os ?s of
              (None, s) \<Rightarrow> (0, setInteractive (case x of None \<Rightarrow> Interactive ?c | Some v \<Rightarrow> v) s)
            | (Some err, s) \<Rightarrow>
                (1, setInteractive (case x of None \<Rightarrow> Interactive ?c | Some v \<Rightarrow> v)
                      (emit (MsgError err) s)))" for x
  proof -
    have "\<lparr>config = parseFlags (f\<lparr>flagInteractive := x\<rparr>) ?c, procs = p, stdin = ins, trace = []\<rparr> =
          setInteractive (case x of None \<Rightarrow> Interactive ?c | Some v \<Rightarrow> v) ?s"
      by (simp add: parseFlags_interactive setInteractive_def)
    then show ?thesis
      by (simp add: main_def Let_def Run_setInteractive case_prod_beta split: option.splits)
  qed
  show ?thesis
    unfolding m by (simp add: case_prod_beta split: option.splits)
qed

end
